theory Spec2Isabelle
  imports Main "HOL-Library.Sublist" "HOL-Library.AList"
begin

section \<open>Python errors\<close>

text \<open>
  Every exception the modelled code can raise is a value. A call that can raise returns
  the state it leaves behind together with \<open>Some e\<close> (raised) or \<open>None\<close> (returned):
  Python keeps the mutations made before the \<^verbatim>\<open>raise\<close>.
\<close>

datatype error =
    TypeError
  | ValueError
  | AttributeError
  | IndexError
  | AssertionError
  | OperationalError
  | ProgrammingError
  | CollaboratorError string

section \<open>Paths (\<^verbatim>\<open>pathlib\<close> on POSIX)\<close>

text \<open>
  A \<^verbatim>\<open>pathlib.PurePosixPath\<close>: its root (\<^verbatim>\<open>''\<close>, \<^verbatim>\<open>'/'\<close> or \<^verbatim>\<open>'//'\<close>) and the components after it.
  There is no drive on POSIX.
\<close>

record path =
  root :: string
  tail :: "string list"

text \<open>\<^verbatim>\<open>str.split('/')\<close>.\<close>

fun split_sep :: "string \<Rightarrow> string list" where
  "split_sep [] = [[]]"
| "split_sep (c # cs) =
     (if c = CHR ''/'' then [] # split_sep cs
      else (case split_sep cs of [] \<Rightarrow> [[c]] | w # ws \<Rightarrow> (c # w) # ws))"

text \<open>
  \<^verbatim>\<open>Path(s)\<close>: one leading slash or three and more give the root \<^verbatim>\<open>'/'\<close>, exactly two give
  \<^verbatim>\<open>'//'\<close>; empty components and \<^verbatim>\<open>'.'\<close> are dropped.
\<close>

definition parse_root :: "string \<Rightarrow> string" where
  "parse_root s =
     (if take 1 s \<noteq> ''/'' then []
      else if take 2 s = ''//'' \<and> take 3 s \<noteq> ''///'' then ''//''
      else ''/'')"

definition Path :: "string \<Rightarrow> path" where
  "Path s = \<lparr>root = parse_root s, tail = filter (\<lambda>x. x \<noteq> [] \<and> x \<noteq> ''.'') (split_sep s)\<rparr>"

text \<open>\<^verbatim>\<open>str(path)\<close>.\<close>

fun join_sep :: "string list \<Rightarrow> string" where
  "join_sep [] = []"
| "join_sep [x] = x"
| "join_sep (x # y # ys) = x @ ''/'' @ join_sep (y # ys)"

definition str_path :: "path \<Rightarrow> string" where
  "str_path p = (if root p = [] \<and> tail p = [] then ''.'' else root p @ join_sep (tail p))"

text \<open>\<^verbatim>\<open>os.path.isabs\<close> of a path: its string starts with a slash, that is, it has a root.\<close>

definition isabs :: "path \<Rightarrow> bool" where
  "isabs p = (root p \<noteq> [])"

text \<open>\<^verbatim>\<open>p.name\<close>: the last component, \<^verbatim>\<open>''\<close> when there is none.\<close>

definition name :: "path \<Rightarrow> string" where
  "name p = (if tail p = [] then [] else last (tail p))"

text \<open>\<^verbatim>\<open>p.parent\<close>: the path without its last component; a path with no component is its own parent.\<close>

definition parent :: "path \<Rightarrow> path" where
  "parent p = p\<lparr>tail := butlast (tail p)\<rparr>"

text \<open>
  \<^verbatim>\<open>p.parents[idx]\<close> for \<open>idx \<ge> 0\<close>: there are as many parents as components, and an index
  beyond them raises \<^verbatim>\<open>IndexError\<close>.
\<close>

definition parents_at :: "path \<Rightarrow> nat \<Rightarrow> error + path" where
  "parents_at p idx =
     (if idx \<ge> length (tail p) then Inl IndexError
      else Inr (p\<lparr>tail := take (length (tail p) - idx - 1) (tail p)\<rparr>))"

text \<open>\<^verbatim>\<open>base / other\<close>: a rooted right operand replaces the left one.\<close>

definition joinpath :: "path \<Rightarrow> path \<Rightarrow> path" where
  "joinpath p q = (if root q \<noteq> [] then q else \<lparr>root = root p, tail = tail p @ tail q\<rparr>)"

text \<open>
  \<^verbatim>\<open>p.is_relative_to(other)\<close>: \<open>other\<close> is \<open>p\<close> or one of its parents (same root, a prefix of
  the components).
\<close>

definition is_relative_to :: "path \<Rightarrow> path \<Rightarrow> bool" where
  "is_relative_to p other = (root other = root p \<and> prefix (tail other) (tail p))"

text \<open>
  \<^verbatim>\<open>p.relative_to(other)\<close>: raises \<^verbatim>\<open>ValueError\<close> when \<open>p\<close> is not in the subpath of \<open>other\<close>,
  else the rootless path of the remaining components.
\<close>

definition relative_to :: "path \<Rightarrow> path \<Rightarrow> error + path" where
  "relative_to p other =
     (if is_relative_to p other
      then Inr \<lparr>root = [], tail = drop (length (tail other)) (tail p)\<rparr>
      else Inl ValueError)"

subsection \<open>\<^verbatim>\<open>utils.get_abs_rel_paths\<close>\<close>

definition get_abs_rel_paths :: "path \<Rightarrow> path \<Rightarrow> error + (path \<times> path)" where
  "get_abs_rel_paths input_path base_path =
     (if isabs input_path then
        (case relative_to input_path base_path of
           Inl e \<Rightarrow> Inl e
         | Inr rel_path \<Rightarrow> Inr (input_path, rel_path))
      else Inr (joinpath base_path input_path, input_path))"

section \<open>The status ledger (\<^verbatim>\<open>utils/loggers.py\<close>)\<close>

type_synonym 'a result = "'a \<times> error option"

subsection \<open>State\<close>

text \<open>
  A row of a \<^verbatim>\<open>{ctx}_logs\<close> table:
  \<^verbatim>\<open>(Status Integer, Channel_ID text, Video_ID text PRIMARY KEY)\<close>.
\<close>

record row =
  Status :: int
  Channel_ID :: string
  Video_ID :: string

text \<open>
  A \<^verbatim>\<open>DatabaseLogger\<close> instance: its database (table name to rows, in insertion order) and how
  often its connection was closed. SQLite compares table names without regard to the case of
  ASCII letters: a table is kept under its name in lower case. The tables are those of this
  schema, and each instance is taken to own its database file.
\<close>

record DatabaseLogger =
  db_file :: string
  tables :: "string \<rightharpoonup> row list"
  closes :: nat

text \<open>An argument annotated \<^verbatim>\<open>str | Path\<close>.\<close>

datatype pathlike = PStr string | PPath path

text \<open>
  A call that a stage or one of its jobs makes: \<^verbatim>\<open>ydl.download\<close> for a video,
  \<^verbatim>\<open>demucs.separate.main\<close> for a file, \<^verbatim>\<open>self.logger.close()\<close>.
\<close>

datatype call = Download string string | Separate pathlike | Close

text \<open>
  What all objects of the Python process share: the class attribute
  \<^verbatim>\<open>DatabaseLogger.TABLE_EXISTS\<close>, the number of stream handlers attached to the module's
  logger (every \<^verbatim>\<open>ConsoleLogger()\<close> adds one), the lines written to the console, the calls
  of \<^verbatim>\<open>logging.shutdown\<close>; and two records of what has happened so far: the calls that have
  ended, in the order in which they ended, and the calls whose jobs have been handed to a
  pool with \<^verbatim>\<open>apply_async\<close>, in the order of submission.
\<close>

record process =
  TABLE_EXISTS :: "string list"
  handlers :: nat
  console :: "string list"
  shutdowns :: nat
  calls :: "call list"
  submitted :: "call list"

datatype sink = Database DatabaseLogger | Console

text \<open>
  What a stage holds as \<^verbatim>\<open>self.logger\<close>: one \<^verbatim>\<open>Logger\<close>, or a \<^verbatim>\<open>Loggers\<close> collection of
  \<^verbatim>\<open>DatabaseLogger\<close> and \<^verbatim>\<open>ConsoleLogger\<close> instances in the order configured.
\<close>

datatype logger = Logger sink | Loggers "sink list"

subsection \<open>\<^verbatim>\<open>DatabaseLogger\<close>\<close>

text \<open>
  Both statements paste the text \<^verbatim>\<open>{ctx}_logs\<close> into the SQL, where the name of a table is
  expected. An identifier of SQLite is made of letters, digits, \<^verbatim>\<open>_\<close>, \<^verbatim>\<open>$\<close> and characters
  outside ASCII, and begins with neither a digit nor \<^verbatim>\<open>$\<close>. SQLite compares names without regard
  to the case of ASCII letters and keeps the names that begin with \<^verbatim>\<open>sqlite_\<close> for itself.
  \<open>table_name\<close> is the table that a stage name denotes when \<^verbatim>\<open>{ctx}_logs\<close> is one identifier; of
  SQL no more is modelled, and for every other text both statements are refused, as SQLite
  refuses a text with a space or a first digit.
\<close>

definition ascii_lower :: "char \<Rightarrow> char" where
  "ascii_lower ch =
     (case map_of (zip ''ABCDEFGHIJKLMNOPQRSTUVWXYZ'' ''abcdefghijklmnopqrstuvwxyz'') ch of
        None \<Rightarrow> ch
      | Some l \<Rightarrow> l)"

definition sql_lower :: "string \<Rightarrow> string" where
  "sql_lower t = map ascii_lower t"

definition id_char :: "char \<Rightarrow> bool" where
  "id_char ch =
     (ch \<in> set ''ABCDEFGHIJKLMNOPQRSTUVWXYZabcdefghijklmnopqrstuvwxyz0123456789_$''
      \<or> 128 \<le> (of_char ch :: nat))"

definition sql_identifier :: "string \<Rightarrow> bool" where
  "sql_identifier t =
     (case t of
        [] \<Rightarrow> False
      | ch # chs \<Rightarrow> ch \<notin> set ''0123456789$'' \<and> list_all id_char t)"

definition table_name :: "string \<Rightarrow> string option" where
  "table_name ctx =
     (let t = ctx @ ''_logs'' in
      if sql_identifier t \<and> take 7 (sql_lower t) \<noteq> ''sqlite_'' then Some (sql_lower t) else None)"

text \<open>
  \<^verbatim>\<open>create_table\<close>: \<^verbatim>\<open>CREATE TABLE IF NOT EXISTS\<close>, commit, then \<^verbatim>\<open>TABLE_EXISTS.append(ctx)\<close>.
  A closed connection refuses every statement with \<^verbatim>\<open>ProgrammingError\<close>; a statement that
  SQLite cannot prepare raises \<^verbatim>\<open>OperationalError\<close>.
\<close>

definition create_table ::
  "process \<Rightarrow> DatabaseLogger \<Rightarrow> string \<Rightarrow> (process \<times> DatabaseLogger) result" where
  "create_table w d ctx =
     (if closes d > 0 then ((w, d), Some ProgrammingError)
      else
        (case table_name ctx of
           None \<Rightarrow> ((w, d), Some OperationalError)
         | Some t \<Rightarrow>
             ((w\<lparr>TABLE_EXISTS := TABLE_EXISTS w @ [ctx]\<rparr>,
               (case tables d t of
                  None \<Rightarrow> d\<lparr>tables := (tables d)(t \<mapsto> [])\<rparr>
                | Some rows \<Rightarrow> d)),
              None)))"

text \<open>
  \<^verbatim>\<open>INSERT OR REPLACE\<close>: the row in conflict on the primary key \<^verbatim>\<open>Video_ID\<close> is deleted and the
  new row inserted; a missing table raises \<^verbatim>\<open>OperationalError\<close>.
\<close>

definition insert_or_replace :: "DatabaseLogger \<Rightarrow> string \<Rightarrow> row \<Rightarrow> DatabaseLogger result" where
  "insert_or_replace d ctx r =
     (if closes d > 0 then (d, Some ProgrammingError)
      else
        (case table_name ctx of
           None \<Rightarrow> (d, Some OperationalError)
         | Some t \<Rightarrow>
             (case tables d t of
                None \<Rightarrow> (d, Some OperationalError)
              | Some rows \<Rightarrow>
                  (d\<lparr>tables :=
                       (tables d)(t \<mapsto> filter (\<lambda>x. Video_ID x \<noteq> Video_ID r) rows @ [r])\<rparr>,
                   None))))"

text \<open>
  \<^verbatim>\<open>DatabaseLogger.log(status, channel_id, video_id, ctx)\<close>. The last argument is \<open>None\<close> when
  the caller passes three arguments only: the required parameter \<^verbatim>\<open>ctx\<close> is missing and the
  call raises \<^verbatim>\<open>TypeError\<close>.
\<close>

definition DatabaseLogger_log ::
  "process \<Rightarrow> DatabaseLogger \<Rightarrow> bool \<Rightarrow> string \<Rightarrow> string \<Rightarrow> string option
     \<Rightarrow> (process \<times> DatabaseLogger) result" where
  "DatabaseLogger_log w d status channel_id video_id ctx_arg =
     (case ctx_arg of
        None \<Rightarrow> ((w, d), Some TypeError)
      | Some ctx \<Rightarrow>
          (case (if ctx \<notin> set (TABLE_EXISTS w) then create_table w d ctx else ((w, d), None)) of
             (s, Some e) \<Rightarrow> (s, Some e)
           | ((w1, d1), None) \<Rightarrow>
               (case insert_or_replace d1 ctx
                       \<lparr>Status = (if status then 1 else 0), Channel_ID = channel_id,
                        Video_ID = video_id\<rparr> of
                  (d2, r) \<Rightarrow> ((w1, d2), r))))"

definition DatabaseLogger_close :: "DatabaseLogger \<Rightarrow> DatabaseLogger" where
  "DatabaseLogger_close d = d\<lparr>closes := closes d + 1\<rparr>"

subsection \<open>\<^verbatim>\<open>ConsoleLogger\<close>\<close>

text \<open>\<^verbatim>\<open>ConsoleLogger()\<close> attaches one more stream handler to the module's logger.\<close>

definition ConsoleLogger_init :: "process \<Rightarrow> process" where
  "ConsoleLogger_init w = w\<lparr>handlers := handlers w + 1\<rparr>"

definition str_bool :: "bool \<Rightarrow> string" where
  "str_bool b = (if b then ''True'' else ''False'')"

definition console_line :: "bool \<Rightarrow> string \<Rightarrow> string \<Rightarrow> string" where
  "console_line status channel_id video_id =
     ''Status: '' @ str_bool status @ '', Channel ID: '' @ channel_id @ '', Video ID: '' @ video_id"

text \<open>
  \<^verbatim>\<open>ConsoleLogger.log(status, channel_id, video_id)\<close> takes three arguments; a fourth raises
  \<^verbatim>\<open>TypeError\<close>. Every attached handler writes the line; \<open>console_line\<close> is its message, which
  the formatter prefixes with the time and the level.
\<close>

definition ConsoleLogger_log ::
  "process \<Rightarrow> bool \<Rightarrow> string \<Rightarrow> string \<Rightarrow> string option \<Rightarrow> process result" where
  "ConsoleLogger_log w status channel_id video_id ctx_arg =
     (case ctx_arg of
        Some ctx \<Rightarrow> (w, Some TypeError)
      | None \<Rightarrow>
          (w\<lparr>console := console w @ replicate (handlers w) (console_line status channel_id video_id)\<rparr>,
           None))"

definition ConsoleLogger_close :: "process \<Rightarrow> process" where
  "ConsoleLogger_close w = w\<lparr>shutdowns := shutdowns w + 1\<rparr>"

subsection \<open>Dynamic dispatch on a sink, and \<^verbatim>\<open>Loggers\<close>\<close>

fun sink_log ::
  "process \<Rightarrow> sink \<Rightarrow> bool \<Rightarrow> string \<Rightarrow> string \<Rightarrow> string option \<Rightarrow> (process \<times> sink) result" where
  "sink_log w (Database d) status channel_id video_id ctx_arg =
     (case DatabaseLogger_log w d status channel_id video_id ctx_arg of
        ((w', d'), r) \<Rightarrow> ((w', Database d'), r))"
| "sink_log w Console status channel_id video_id ctx_arg =
     (case ConsoleLogger_log w status channel_id video_id ctx_arg of
        (w', r) \<Rightarrow> ((w', Console), r))"

fun sink_close :: "process \<Rightarrow> sink \<Rightarrow> process \<times> sink" where
  "sink_close w (Database d) = (w, Database (DatabaseLogger_close d))"
| "sink_close w Console = (ConsoleLogger_close w, Console)"

text \<open>
  The loop of \<^verbatim>\<open>Loggers.log\<close>: \<^verbatim>\<open>for logger in self.loggers: logger.log(status, channel_id,
  video_id)\<close>. Each sink is called with three arguments; the first sink that raises ends
  the loop.
\<close>

fun log_each ::
  "process \<Rightarrow> sink list \<Rightarrow> bool \<Rightarrow> string \<Rightarrow> string \<Rightarrow> (process \<times> sink list) result" where
  "log_each w [] status channel_id video_id = ((w, []), None)"
| "log_each w (l # ls) status channel_id video_id =
     (case sink_log w l status channel_id video_id None of
        ((w', l'), Some e) \<Rightarrow> ((w', l' # ls), Some e)
      | ((w', l'), None) \<Rightarrow>
          (case log_each w' ls status channel_id video_id of
             ((w'', ls'), r) \<Rightarrow> ((w'', l' # ls'), r)))"

text \<open>
  \<^verbatim>\<open>Loggers.log(status, channel_id, video_id)\<close> takes three arguments; a fourth raises
  \<^verbatim>\<open>TypeError\<close> before the loop is entered.
\<close>

definition Loggers_log ::
  "process \<Rightarrow> sink list \<Rightarrow> bool \<Rightarrow> string \<Rightarrow> string \<Rightarrow> string option
     \<Rightarrow> (process \<times> sink list) result" where
  "Loggers_log w ls status channel_id video_id ctx_arg =
     (case ctx_arg of
        Some ctx \<Rightarrow> ((w, ls), Some TypeError)
      | None \<Rightarrow> log_each w ls status channel_id video_id)"

fun Loggers_close :: "process \<Rightarrow> sink list \<Rightarrow> process \<times> sink list" where
  "Loggers_close w [] = (w, [])"
| "Loggers_close w (l # ls) =
     (case sink_close w l of
        (w', l') \<Rightarrow> (case Loggers_close w' ls of (w'', ls') \<Rightarrow> (w'', l' # ls')))"

text \<open>
  \<^verbatim>\<open>self.logger.log(...)\<close> and \<^verbatim>\<open>self.logger.close()\<close> as a stage calls them; the call of
  \<^verbatim>\<open>close\<close> is recorded.
\<close>

fun logger_log ::
  "process \<Rightarrow> logger \<Rightarrow> bool \<Rightarrow> string \<Rightarrow> string \<Rightarrow> string option \<Rightarrow> (process \<times> logger) result" where
  "logger_log w (Logger l) status channel_id video_id ctx_arg =
     (case sink_log w l status channel_id video_id ctx_arg of
        ((w', l'), r) \<Rightarrow> ((w', Logger l'), r))"
| "logger_log w (Loggers ls) status channel_id video_id ctx_arg =
     (case Loggers_log w ls status channel_id video_id ctx_arg of
        ((w', ls'), r) \<Rightarrow> ((w', Loggers ls'), r))"

fun logger_close :: "process \<Rightarrow> logger \<Rightarrow> process \<times> logger" where
  "logger_close w (Logger l) =
     (case sink_close (w\<lparr>calls := calls w @ [Close]\<rparr>) l of (w', l') \<Rightarrow> (w', Logger l'))"
| "logger_close w (Loggers ls) =
     (case Loggers_close (w\<lparr>calls := calls w @ [Close]\<rparr>) ls of (w', ls') \<Rightarrow> (w', Loggers ls'))"

section \<open>The worker pool (\<^verbatim>\<open>multiprocessing.Pool\<close>)\<close>

text \<open>
  The state a job works on: the process state and the stage's logger. A job returns the
  state it leaves and the exception it raised, if any.
\<close>

type_synonym state = "process \<times> logger"

type_synonym job = "state \<Rightarrow> state result"

text \<open>\<^verbatim>\<open>Pool(processes=n)\<close> raises \<^verbatim>\<open>ValueError\<close> for \<open>n < 1\<close> (number of processes must be at least 1).\<close>

definition Pool :: "int \<Rightarrow> error option" where
  "Pool processes = (if processes < 1 then Some ValueError else None)"

text \<open>
  \<^verbatim>\<open>apply_async\<close> sends the bound method to a worker and pickles it for that, the stage and its
  logger with it. A \<^verbatim>\<open>DatabaseLogger\<close> holds an \<^verbatim>\<open>sqlite3.Connection\<close>, which cannot be pickled; a
  \<^verbatim>\<open>ConsoleLogger\<close> can.
\<close>

fun sink_picklable :: "sink \<Rightarrow> bool" where
  "sink_picklable (Database d) = False"
| "sink_picklable Console = True"

fun picklable :: "logger \<Rightarrow> bool" where
  "picklable (Logger l) = sink_picklable l"
| "picklable (Loggers ls) = list_all sink_picklable ls"

text \<open>
  A job in a worker: the worker is a process of its own, forked from the parent when the pool
  was built, and the job works on its copy of the stage. What the job writes to the console
  and the calls that it makes are effects outside the worker; everything else that it changes
  is lost with the copy.
\<close>

definition in_worker :: "job \<Rightarrow> job" where
  "in_worker j s =
     (case s of (w, l) \<Rightarrow>
        (case j (w, l) of
           ((w', l'), r) \<Rightarrow> ((w\<lparr>console := console w', calls := calls w'\<rparr>, l), r)))"

text \<open>
  What the scheduling of the workers decides. \<open>picks\<close>: whenever a job ends, which of the
  running jobs it is (an index into the running jobs, oldest first, taken modulo their
  number; the oldest one when the list has run out). \<open>stragglers\<close>: how many more jobs end
  after the parent has raised and before the pool is terminated.
\<close>

record schedule =
  picks :: "nat list"
  stragglers :: nat

text \<open>
  The order in which the jobs end. The workers take the jobs in the order of submission; a
  worker whose job has ended takes the next waiting one. The first argument counts the jobs
  that have not ended.
\<close>

fun completion_order :: "nat \<Rightarrow> nat list \<Rightarrow> 'a list \<Rightarrow> 'a list \<Rightarrow> 'a list" where
  "completion_order 0 ps running waiting = []"
| "completion_order (Suc n) ps [] waiting = []"
| "completion_order (Suc n) ps (r # rs) waiting =
     (let k = (case ps of [] \<Rightarrow> 0 | p # qs \<Rightarrow> p mod Suc (length rs)) in
      ((r # rs) ! k)
        # completion_order n (tl ps)
            (take k (r # rs) @ drop (Suc k) (r # rs) @ take 1 waiting) (drop 1 waiting))"

text \<open>
  The loop \<^verbatim>\<open>for process in processes: process.get()\<close> over the results that have arrived, in
  the order of submission: \<^verbatim>\<open>get()\<close> returns for a job that has returned, raises the exception
  of a job that has raised and waits for a job that has not ended. The value is the
  exception that the loop raises, if it does before it has to wait or is through.
\<close>

fun first_failure :: "(nat \<rightharpoonup> error option) \<Rightarrow> nat list \<Rightarrow> error option" where
  "first_failure res [] = None"
| "first_failure res (i # is) =
     (case res i of
        None \<Rightarrow> None
      | Some None \<Rightarrow> first_failure res is
      | Some (Some e) \<Rightarrow> Some e)"

text \<open>Jobs that end although nobody fetches their result: their exceptions are lost.\<close>

fun run_stragglers :: "(nat \<times> job) list \<Rightarrow> state \<Rightarrow> state" where
  "run_stragglers [] s = s"
| "run_stragglers ((i, j) # js) s = run_stragglers js (fst (in_worker j s))"

text \<open>
  The jobs end one by one, in their completion order, while the parent waits in \<^verbatim>\<open>get()\<close>. As
  soon as the loop of the parent raises, the exception leaves the \<^verbatim>\<open>with Pool(...)\<close> block, which
  terminates the pool: the jobs that have not ended by then are killed, but for the
  stragglers. When every job has ended and the loop has not raised, it is through.
\<close>

fun serve ::
  "nat \<Rightarrow> nat \<Rightarrow> (nat \<times> job) list \<Rightarrow> (nat \<rightharpoonup> error option) \<Rightarrow> state \<Rightarrow> state result" where
  "serve n late [] res s = (s, first_failure res [0..<n])"
| "serve n late ((i, j) # order) res s =
     (case first_failure res [0..<n] of
        Some e \<Rightarrow> (run_stragglers (take late ((i, j) # order)) s, Some e)
      | None \<Rightarrow>
          (case in_worker j s of (s', r) \<Rightarrow> serve n late order (res(i \<mapsto> r)) s'))"

text \<open>
  \<^verbatim>\<open>with Pool(processes=n) as pool:\<close> submit every job, then fetch every result. A task is a job
  with the call that it is to make. When the logger cannot be pickled no task reaches a
  worker: each result holds the \<^verbatim>\<open>TypeError\<close> of the pickling and the first \<^verbatim>\<open>get()\<close> raises it.
\<close>

definition pool_run :: "int \<Rightarrow> schedule \<Rightarrow> (call \<times> job) list \<Rightarrow> state \<Rightarrow> state result" where
  "pool_run processes sched tasks s =
     (case Pool processes of
        Some e \<Rightarrow> (s, Some e)
      | None \<Rightarrow>
          (case s of (w, l) \<Rightarrow>
             (let s1 = (w\<lparr>submitted := submitted w @ map fst tasks\<rparr>, l);
                  jobs = enumerate 0 (map snd tasks)
              in if 0 < length tasks \<and> \<not> picklable l then (s1, Some TypeError)
                 else serve (length tasks) (stragglers sched)
                        (completion_order (length tasks) (picks sched)
                           (take (nat processes) jobs) (drop (nat processes) jobs))
                        Map.empty s1)))"

section \<open>The stages\<close>

text \<open>
  The external collaborators: \<^verbatim>\<open>extract_info\<close> gives the \<^verbatim>\<open>id\<close> of every entry of a channel
  (or raises); \<^verbatim>\<open>ydl.download\<close> gives the \<^verbatim>\<open>status\<close> values it passes to the progress hooks and
  the exception it ends with, if any; \<^verbatim>\<open>os.path.isfile\<close>; \<^verbatim>\<open>demucs.separate.main\<close>.
\<close>

record collaborators =
  extract_info :: "string \<Rightarrow> error + string option list"
  ydl_download :: "string \<Rightarrow> string \<Rightarrow> string list \<times> error option"
  isfile :: "pathlike \<Rightarrow> bool"
  demucs :: "pathlike \<Rightarrow> error option"

text \<open>What every stage keeps: \<^verbatim>\<open>self.num_workers\<close> and \<^verbatim>\<open>self.logger\<close>.\<close>

record stage =
  num_workers :: int
  logger :: logger

subsection \<open>\<^verbatim>\<open>YoutubeDownloader\<close>\<close>

record YoutubeDownloader = stage +
  channel_ids :: "string list"
  channels_file :: "string option"
  save_dir :: path
  logs_dir :: path
  channel_to_video_map :: "(string \<times> string list) list"

text \<open>
  \<^verbatim>\<open>YoutubeDownloader.__init__\<close>. A configuration key that is absent is \<open>None\<close>: \<^verbatim>\<open>channel_ids\<close>
  defaults to the empty list, \<^verbatim>\<open>channels_file\<close> to \<^verbatim>\<open>None\<close>, \<^verbatim>\<open>num_workers\<close> to 0. \<open>file_lines\<close> is
  what reading the channels file and stripping its lines gives. The lines are passed to
  \<^verbatim>\<open>extend\<close> as a \<^verbatim>\<open>map\<close> object: the default, a Python list, takes them; configured channel ids are
  a \<^verbatim>\<open>ListConfig\<close>, whose \<^verbatim>\<open>extend\<close> asserts that its argument is a tuple, a list or a \<^verbatim>\<open>ListConfig\<close>.
\<close>

definition YoutubeDownloader_init ::
  "string list option \<Rightarrow> string option \<Rightarrow> (error + string list) \<Rightarrow> string \<Rightarrow> string
     \<Rightarrow> int option \<Rightarrow> logger \<Rightarrow> error + YoutubeDownloader" where
  "YoutubeDownloader_init cfg_channel_ids cfg_channels_file file_lines cfg_save_dir cfg_logs_dir
       cfg_num_workers lg =
     (let ids = (case cfg_channel_ids of None \<Rightarrow> [] | Some xs \<Rightarrow> xs) in
      if \<not> (ids \<noteq> [] \<or> cfg_channels_file \<noteq> Some []) then Inl AssertionError
      else
        (case (if cfg_channels_file \<noteq> None \<and> cfg_channels_file \<noteq> Some []
               then (case file_lines of
                       Inl e \<Rightarrow> Inl e
                     | Inr ls \<Rightarrow>
                         (case cfg_channel_ids of
                            Some xs \<Rightarrow> Inl AssertionError
                          | None \<Rightarrow> Inr ls))
               else Inr ids) of
           Inl e \<Rightarrow> Inl e
         | Inr ids' \<Rightarrow>
             Inr \<lparr>num_workers = (case cfg_num_workers of None \<Rightarrow> 0 | Some n \<Rightarrow> n),
                  logger = lg,
                  channel_ids = ids',
                  channels_file = cfg_channels_file,
                  save_dir = Path cfg_save_dir,
                  logs_dir = Path cfg_logs_dir,
                  channel_to_video_map = []\<rparr>))"

text \<open>The loop \<^verbatim>\<open>for video_id in video_ids: self.logger.log(False, channel_id, video_id, ...)\<close>.\<close>

fun log_incomplete :: "state \<Rightarrow> string \<Rightarrow> string list \<Rightarrow> state result" where
  "log_incomplete s channel_id [] = (s, None)"
| "log_incomplete (w, l) channel_id (video_id # video_ids) =
     (case logger_log w l False channel_id video_id (Some ''YoutubeDownloader'') of
        (s', Some e) \<Rightarrow> (s', Some e)
      | (s', None) \<Rightarrow> log_incomplete s' channel_id video_ids)"

text \<open>The entries whose \<^verbatim>\<open>id\<close> is truthy: present and not empty.\<close>

definition truthy_ids :: "string option list \<Rightarrow> string list" where
  "truthy_ids entries = [video_id. Some video_id \<leftarrow> entries, video_id \<noteq> []]"

definition get_video_ids ::
  "collaborators \<Rightarrow> process \<Rightarrow> YoutubeDownloader \<Rightarrow> string
     \<Rightarrow> (process \<times> YoutubeDownloader) result" where
  "get_video_ids c w self channel_id =
     (case extract_info c channel_id of
        Inl e \<Rightarrow> ((w, self), Some e)
      | Inr entries \<Rightarrow>
          (let video_ids = truthy_ids entries in
           case log_incomplete (w, logger self) channel_id video_ids of
             ((w', l'), Some e) \<Rightarrow> ((w', self\<lparr>logger := l'\<rparr>), Some e)
           | ((w', l'), None) \<Rightarrow>
               ((w', self\<lparr>logger := l',
                           channel_to_video_map :=
                             AList.update channel_id video_ids (channel_to_video_map self)\<rparr>),
                None)))"

text \<open>
  The progress hook of \<^verbatim>\<open>download_audio\<close>, called once for every status the download reports:
  \<^verbatim>\<open>if d["status"] == "finished": self.logger.log(True, channel_id, video_id, ...)\<close>.
\<close>

fun logger_hook :: "string \<Rightarrow> string \<Rightarrow> string list \<Rightarrow> job" where
  "logger_hook channel_id video_id [] s = (s, None)"
| "logger_hook channel_id video_id (d # ds) (w, l) =
     (if d = ''finished'' then
        (case logger_log w l True channel_id video_id (Some ''YoutubeDownloader'') of
           (s', Some e) \<Rightarrow> (s', Some e)
         | (s', None) \<Rightarrow> logger_hook channel_id video_id ds s')
      else logger_hook channel_id video_id ds (w, l))"

text \<open>
  The output template of \<^verbatim>\<open>download_audio\<close> with the title and the extension filled in:
  \<^verbatim>\<open>{save_dir}/{channel_id}/{video_id}/{title}_{video_id.replace('_', '-')}.{ext}\<close>.
\<close>

definition outtmpl :: "path \<Rightarrow> string \<Rightarrow> string \<Rightarrow> string \<Rightarrow> string \<Rightarrow> string" where
  "outtmpl save channel_id video_id title ext =
     str_path save @ ''/'' @ channel_id @ ''/'' @ video_id @ ''/'' @ title @ ''_''
       @ map (\<lambda>ch. if ch = CHR ''_'' then CHR ''-'' else ch) video_id @ ''.'' @ ext"

text \<open>
  \<^verbatim>\<open>download_audio\<close>: the download runs and calls the hook; an exception of the hook or of the
  download is the exception of the job, and the call of the download has ended with it. The
  output directory that the method creates first is not part of the state.
\<close>

definition download_audio :: "collaborators \<Rightarrow> string \<Rightarrow> string \<Rightarrow> job" where
  "download_audio c channel_id video_id s =
     (case s of (w, l) \<Rightarrow>
        (case ydl_download c channel_id video_id of
           (statuses, r) \<Rightarrow>
             (case logger_hook channel_id video_id statuses
                     (w\<lparr>calls := calls w @ [Download channel_id video_id]\<rparr>, l) of
                (s', Some e) \<Rightarrow> (s', Some e)
              | (s', None) \<Rightarrow> (s', r))))"

text \<open>
  The items of \<^verbatim>\<open>for channel_id, video_ids in self.channel_to_video_map.items(): for video_id in
  video_ids\<close>, in order.
\<close>

definition map_items :: "(string \<times> string list) list \<Rightarrow> (string \<times> string) list" where
  "map_items m = concat (map (\<lambda>(channel_id, video_ids). map (Pair channel_id) video_ids) m)"

text \<open>One \<^verbatim>\<open>pool.apply_async(self.download_audio, args=(channel_id, video_id))\<close> for every item.\<close>

definition download_tasks :: "collaborators \<Rightarrow> (string \<times> string) list \<Rightarrow> (call \<times> job) list" where
  "download_tasks c items =
     map (\<lambda>(channel_id, video_id).
            (Download channel_id video_id, download_audio c channel_id video_id)) items"

text \<open>
  \<^verbatim>\<open>start_download\<close>: the pool is given the download of every item of the map, under the
  schedule \<open>sched\<close> of its workers; \<^verbatim>\<open>self.logger.close()\<close> is the statement after the \<^verbatim>\<open>with\<close> block
  and is reached when the block has not raised.
\<close>

definition start_download ::
  "collaborators \<Rightarrow> schedule \<Rightarrow> process \<Rightarrow> YoutubeDownloader
     \<Rightarrow> (process \<times> YoutubeDownloader) result" where
  "start_download c sched w self =
     (case pool_run (num_workers self) sched
             (download_tasks c (map_items (channel_to_video_map self)))
             (w, logger self) of
        ((w', l'), Some e) \<Rightarrow> ((w', self\<lparr>logger := l'\<rparr>), Some e)
      | ((w', l'), None) \<Rightarrow>
          (case logger_close w' l' of (w'', l'') \<Rightarrow> ((w'', self\<lparr>logger := l''\<rparr>), None)))"

subsection \<open>The file tree and \<^verbatim>\<open>glob\<close>\<close>

text \<open>A directory tree: a directory lists its entries by name.\<close>

datatype node = File | Dir "(string \<times> node) list"

fun is_dir :: "node \<Rightarrow> bool" where
  "is_dir File = False"
| "is_dir (Dir es) = True"

fun listdir :: "node \<Rightarrow> (string \<times> node) list" where
  "listdir File = []"
| "listdir (Dir es) = es"

text \<open>\<^verbatim>\<open>os.path.join\<close> of a directory name and an entry name.\<close>

definition os_path_join :: "string \<Rightarrow> string \<Rightarrow> string" where
  "os_path_join a b = (if a = [] then b else if last a = CHR ''/'' then a @ b else a @ ''/'' @ b)"

text \<open>\<^verbatim>\<open>glob.has_magic\<close>: the text holds one of the wildcard characters \<^verbatim>\<open>*\<close>, \<^verbatim>\<open>?\<close> and \<^verbatim>\<open>[\<close>.\<close>

definition has_magic :: "string \<Rightarrow> bool" where
  "has_magic p = list_ex (\<lambda>ch. ch \<in> set ''*?['') p"

text \<open>
  The directory part that \<^verbatim>\<open>glob\<close> splits off the pattern \<^verbatim>\<open>{in_path}/*\<close>: \<^verbatim>\<open>os.path.split\<close> cuts
  after the last slash and strips the slashes at the end of the head, unless the head is
  made of slashes only.
\<close>

definition glob_base :: "string \<Rightarrow> string" where
  "glob_base p =
     (let h = p @ ''/'' in
      if list_all (\<lambda>ch. ch = CHR ''/'') h then h
      else rev (dropWhile (\<lambda>ch. ch = CHR ''/'') (rev h)))"

text \<open>
  The directories in which \<^verbatim>\<open>glob\<close> looks for \<^verbatim>\<open>*/*/.wav\<close>, each with the name under which \<^verbatim>\<open>glob\<close>
  reports it. A directory part without wildcards is taken as it is, and \<open>t\<close> is the tree
  that the file system holds there; a directory part with wildcards is expanded against the
  file system, and \<open>expansion\<close> is what that gives.
\<close>

definition glob_bases :: "string \<Rightarrow> node \<Rightarrow> (string \<times> node) list \<Rightarrow> (string \<times> node) list" where
  "glob_bases p t expansion = (if has_magic p then expansion else [(glob_base p, t)])"

text \<open>
  A \<^verbatim>\<open>*\<close> segment that is not the last one: the sub-directories, but for the hidden ones
  (a wildcard does not match a leading dot).
\<close>

definition glob_star_dirs :: "node \<Rightarrow> (string \<times> node) list" where
  "glob_star_dirs t = filter (\<lambda>(n, sub). is_dir sub \<and> take 1 n \<noteq> ''.'') (listdir t)"

text \<open>
  A literal last segment: the entry of that very name, a file or a directory, if there is
  one.
\<close>

definition glob_literal :: "node \<Rightarrow> string \<Rightarrow> string list" where
  "glob_literal t base = (if base \<in> fst ` set (listdir t) then [base] else [])"

text \<open>
  \<^verbatim>\<open>glob(f"{self.in_path}/*/*/.wav")\<close>, as \<^verbatim>\<open>MusicSeparator.__init__\<close> and \<^verbatim>\<open>VAD.__init__\<close> both write
  it.
\<close>

definition glob_wav :: "string \<Rightarrow> node \<Rightarrow> (string \<times> node) list \<Rightarrow> string list" where
  "glob_wav p t expansion =
     concat (map (\<lambda>(d, u).
       concat (map (\<lambda>(a, ta).
         concat (map (\<lambda>(b, tb).
           map (\<lambda>n. os_path_join (os_path_join (os_path_join d a) b) n)
             (glob_literal tb ''.wav''))
           (glob_star_dirs ta)))
         (glob_star_dirs u)))
       (glob_bases p t expansion))"

text \<open>
  The names of the entries three levels below a directory, where the acquisition stage puts
  its audio files, and the names of the files among them; a name that ends in \<^verbatim>\<open>.wav\<close>, and its
  stem.
\<close>

definition third_level_names :: "node \<Rightarrow> string list" where
  "third_level_names t =
     concat (map (\<lambda>(a, ta). concat (map (\<lambda>(b, tb). map fst (listdir tb)) (listdir ta)))
       (listdir t))"

definition third_level_files :: "node \<Rightarrow> string list" where
  "third_level_files t =
     concat (map (\<lambda>(a, ta).
       concat (map (\<lambda>(b, tb). map fst (filter (\<lambda>(n, x). \<not> is_dir x) (listdir tb)))
         (listdir ta)))
       (listdir t))"

definition is_wav :: "string \<Rightarrow> bool" where
  "is_wav n = (drop (length n - 4) n = ''.wav'')"

definition stem :: "string \<Rightarrow> string" where
  "stem n = take (length n - 4) n"

subsection \<open>\<^verbatim>\<open>MusicSeparator\<close>\<close>

record MusicSeparator = stage +
  in_path :: path
  out_path :: path
  audio_filepaths :: "string list"

text \<open>
  \<^verbatim>\<open>MusicSeparator.__init__\<close>: \<open>at_in_path\<close> is what the file system holds at \<^verbatim>\<open>in_path\<close> (nothing:
  the assertion fails), \<open>mkdir\<close> the exception of \<^verbatim>\<open>out_path.mkdir(exist_ok=True)\<close>, if it raises
  one, \<open>expansion\<close> what \<^verbatim>\<open>glob\<close> expands an \<^verbatim>\<open>in_path\<close> with wildcards to. \<^verbatim>\<open>out_path\<close> defaults to
  \<^verbatim>\<open>in_path\<close>, \<^verbatim>\<open>num_workers\<close> to 0.
\<close>

definition MusicSeparator_init ::
  "string \<Rightarrow> string option \<Rightarrow> int option \<Rightarrow> node option \<Rightarrow> error option
     \<Rightarrow> (string \<times> node) list \<Rightarrow> logger \<Rightarrow> error + MusicSeparator" where
  "MusicSeparator_init cfg_in_path cfg_out_path cfg_num_workers at_in_path mkdir expansion lg =
     (case at_in_path of
        None \<Rightarrow> Inl AssertionError
      | Some t \<Rightarrow>
          (case mkdir of
             Some e \<Rightarrow> Inl e
           | None \<Rightarrow>
               Inr \<lparr>num_workers = (case cfg_num_workers of None \<Rightarrow> 0 | Some n \<Rightarrow> n),
                    logger = lg,
                    in_path = Path cfg_in_path,
                    out_path = (case cfg_out_path of None \<Rightarrow> Path cfg_in_path | Some p \<Rightarrow> Path p),
                    audio_filepaths = glob_wav (str_path (Path cfg_in_path)) t expansion\<rparr>))"

text \<open>
  \<^verbatim>\<open>separate_audio\<close>: the assertion, the model, then the identity read off the path and logged.
  A \<^verbatim>\<open>str\<close> has no attribute \<^verbatim>\<open>parent\<close>.
\<close>

definition separate_audio :: "collaborators \<Rightarrow> pathlike \<Rightarrow> job" where
  "separate_audio c audio_filepath s =
     (case s of (w, l) \<Rightarrow>
        if \<not> isfile c audio_filepath then ((w, l), Some AssertionError)
        else
          (let w1 = w\<lparr>calls := calls w @ [Separate audio_filepath]\<rparr> in
           case demucs c audio_filepath of
             Some e \<Rightarrow> ((w1, l), Some e)
           | None \<Rightarrow>
               (case audio_filepath of
                  PStr chars \<Rightarrow> ((w1, l), Some AttributeError)
                | PPath p \<Rightarrow>
                    (let channel_id = name (parent p) in
                     case parents_at p 1 of
                       Inl e \<Rightarrow> ((w1, l), Some e)
                     | Inr pp \<Rightarrow>
                         (let video_id = name pp in
                          logger_log w1 l True channel_id video_id (Some ''MusicSeparator''))))))"

text \<open>
  \<^verbatim>\<open>pool.apply_async(self.separate_audio, args=(path))\<close>: \<^verbatim>\<open>(path)\<close> is the string itself, not a
  tuple, so the worker calls \<^verbatim>\<open>separate_audio(*path)\<close> with one argument for every character;
  any number of arguments but one raises \<^verbatim>\<open>TypeError\<close>.
\<close>

definition separate_audio_star :: "collaborators \<Rightarrow> string \<Rightarrow> job" where
  "separate_audio_star c path_str s =
     (if length path_str = 1 then separate_audio c (PStr path_str) s else (s, Some TypeError))"

text \<open>
  \<^verbatim>\<open>separate_all\<close>: one job for every candidate path, then \<^verbatim>\<open>self.logger.close()\<close> after the \<^verbatim>\<open>with\<close>
  block, as in the acquisition stage.
\<close>

definition separate_tasks :: "collaborators \<Rightarrow> string list \<Rightarrow> (call \<times> job) list" where
  "separate_tasks c paths = map (\<lambda>p. (Separate (PStr p), separate_audio_star c p)) paths"

definition separate_all ::
  "collaborators \<Rightarrow> schedule \<Rightarrow> process \<Rightarrow> MusicSeparator
     \<Rightarrow> (process \<times> MusicSeparator) result" where
  "separate_all c sched w self =
     (case pool_run (num_workers self) sched
             (separate_tasks c (audio_filepaths self))
             (w, logger self) of
        ((w', l'), Some e) \<Rightarrow> ((w', self\<lparr>logger := l'\<rparr>), Some e)
      | ((w', l'), None) \<Rightarrow>
          (case logger_close w' l' of (w'', l'') \<Rightarrow> ((w'', self\<lparr>logger := l''\<rparr>), None)))"

subsection \<open>\<^verbatim>\<open>VAD\<close>\<close>

text \<open>
  The settings that \<^verbatim>\<open>OmegaConf.load(cfg.vad_config)\<close> gives: the node
  \<^verbatim>\<open>diarizer.vad.parameters\<close>, if the file has it, and \<^verbatim>\<open>num_workers\<close>. The diarizer, an object of
  the model's library, with the two attributes that the stage assigns.
\<close>

record vad_settings =
  parameters :: "(string \<times> string) list option"
  settings_num_workers :: "int option"

record diarizer_object =
  out_dir :: "string option"
  manifest_filepath :: "string option"

text \<open>
  A \<^verbatim>\<open>VAD\<close> object while \<^verbatim>\<open>__init__\<close> runs: an attribute that has not been assigned yet is \<open>None\<close>, and
  reading it raises \<^verbatim>\<open>AttributeError\<close>.
\<close>

record VAD =
  vad_config :: "vad_settings option"
  vad_in_path :: "string option"
  vad_out_path :: "string option"
  vad_audio_filepaths :: "string list option"
  vad_num_workers :: "int option"
  batch_size :: "int option"
  diarizer :: "diarizer_object option"
  vad_logger :: "logger option"

text \<open>
  \<^verbatim>\<open>update_vad_config\<close>: three parameters are set in the settings, then \<^verbatim>\<open>self.diarizer.out_dir =
  self.out_path\<close> and \<^verbatim>\<open>self.vad_config.num_workers = self.num_workers\<close>; the right-hand side of an
  assignment is read first.
\<close>

definition update_vad_config :: "VAD \<Rightarrow> error + VAD" where
  "update_vad_config self =
     (case vad_config self of
        None \<Rightarrow> Inl AttributeError
      | Some st \<Rightarrow>
          (case parameters st of
             None \<Rightarrow> Inl AttributeError
           | Some ps \<Rightarrow>
               (let st1 = st\<lparr>parameters :=
                              Some (AList.update ''pad_offset'' ''-0.05''
                                     (AList.update ''offset'' ''0.6''
                                       (AList.update ''onset'' ''0.8'' ps)))\<rparr> in
                case vad_out_path self of
                  None \<Rightarrow> Inl AttributeError
                | Some out \<Rightarrow>
                    (case diarizer self of
                       None \<Rightarrow> Inl AttributeError
                     | Some dz \<Rightarrow>
                         (case vad_num_workers self of
                            None \<Rightarrow> Inl AttributeError
                          | Some nw \<Rightarrow>
                              Inr (self\<lparr>vad_config := Some (st1\<lparr>settings_num_workers := Some nw\<rparr>),
                                        diarizer := Some (dz\<lparr>out_dir := Some out\<rparr>)\<rparr>))))))"

text \<open>
  \<^verbatim>\<open>make_manifest\<close> writes one entry for every audio file to a temporary file \<open>tmp\<close> and
  assigns its name to \<^verbatim>\<open>self.diarizer.manifest_filepath\<close>.
\<close>

definition make_manifest :: "string \<Rightarrow> VAD \<Rightarrow> error + VAD" where
  "make_manifest tmp self =
     (case vad_audio_filepaths self of
        None \<Rightarrow> Inl AttributeError
      | Some paths \<Rightarrow>
          (case diarizer self of
             None \<Rightarrow> Inl AttributeError
           | Some dz \<Rightarrow> Inr (self\<lparr>diarizer := Some (dz\<lparr>manifest_filepath := Some tmp\<rparr>)\<rparr>)))"

text \<open>
  \<^verbatim>\<open>VAD.__init__\<close>, statement by statement: \<open>loaded\<close> is what loading the settings gives, \<open>t\<close> and
  \<open>expansion\<close> are what \<^verbatim>\<open>glob\<close> finds, \<open>made\<close> is the diarizer that the library builds.
\<close>

definition VAD_init ::
  "(error + vad_settings) \<Rightarrow> string \<Rightarrow> string option \<Rightarrow> int option \<Rightarrow> int option \<Rightarrow> node
     \<Rightarrow> (string \<times> node) list \<Rightarrow> string \<Rightarrow> diarizer_object \<Rightarrow> logger \<Rightarrow> error + VAD" where
  "VAD_init loaded cfg_in_path cfg_out_path cfg_num_workers cfg_batch_size t expansion tmp made lg =
     (case loaded of
        Inl e \<Rightarrow> Inl e
      | Inr st \<Rightarrow>
          (case update_vad_config
                  \<lparr>vad_config = Some st, vad_in_path = None, vad_out_path = None,
                   vad_audio_filepaths = None, vad_num_workers = None, batch_size = None,
                   diarizer = None, vad_logger = None\<rparr> of
             Inl e \<Rightarrow> Inl e
           | Inr self1 \<Rightarrow>
               (case make_manifest tmp
                       (self1\<lparr>vad_in_path := Some cfg_in_path,
                               vad_out_path :=
                                 Some (case cfg_out_path of None \<Rightarrow> cfg_in_path | Some p \<Rightarrow> p),
                               vad_audio_filepaths := Some (glob_wav cfg_in_path t expansion)\<rparr>) of
                  Inl e \<Rightarrow> Inl e
                | Inr self2 \<Rightarrow>
                    Inr (self2\<lparr>vad_num_workers :=
                                  Some (case cfg_num_workers of None \<Rightarrow> 0 | Some n \<Rightarrow> n),
                                batch_size :=
                                  Some (case cfg_batch_size of None \<Rightarrow> 1 | Some n \<Rightarrow> n),
                                diarizer := Some made,
                                vad_logger := Some lg\<rparr>))))"

section \<open>Reading the state, and example data\<close>

text \<open>
  The rows that the durable sinks of a logger hold in the table of a name, read as SQLite
  reads it.
\<close>

fun sink_rows :: "sink \<Rightarrow> string \<Rightarrow> row list" where
  "sink_rows (Database d) tname =
     (case tables d (sql_lower tname) of None \<Rightarrow> [] | Some rows \<Rightarrow> rows)"
| "sink_rows Console tname = []"

fun logger_rows :: "logger \<Rightarrow> string \<Rightarrow> row list" where
  "logger_rows (Logger l) tname = sink_rows l tname"
| "logger_rows (Loggers ls) tname = concat (map (\<lambda>l. sink_rows l tname) ls)"

text \<open>The rows that a database holds for a video in the table of a stage.\<close>

definition rows_for :: "DatabaseLogger \<Rightarrow> string \<Rightarrow> string \<Rightarrow> row list" where
  "rows_for d ctx video_id =
     (case table_name ctx of
        None \<Rightarrow> []
      | Some t \<Rightarrow>
          (case tables d t of
             None \<Rightarrow> []
           | Some rows \<Rightarrow> filter (\<lambda>r. Video_ID r = video_id) rows))"

text \<open>
  Modelled from the spec: the completion read \<^verbatim>\<open>isComplete(group_id, item_id, stage_name)\<close> of the
  status ledger, which the source does not have. An item is complete when the ledger holds a
  record for it with status 1; no record means not complete.
\<close>

definition isComplete :: "DatabaseLogger \<Rightarrow> string \<Rightarrow> string \<Rightarrow> string \<Rightarrow> bool" where
  "isComplete d group_id item_id stage_name =
     list_ex (\<lambda>r. Channel_ID r = group_id \<and> Status r = 1) (rows_for d stage_name item_id)"

text \<open>
  A connection that is open, with a table for every stage that \<^verbatim>\<open>TABLE_EXISTS\<close> lists: the state
  of a process that uses one \<^verbatim>\<open>DatabaseLogger\<close>.
\<close>

definition db_ok :: "process \<Rightarrow> DatabaseLogger \<Rightarrow> bool" where
  "db_ok w d =
     (closes d = 0
      \<and> list_all (\<lambda>ctx. case table_name ctx of None \<Rightarrow> False | Some t \<Rightarrow> tables d t \<noteq> None)
            (TABLE_EXISTS w))"

text \<open>
  A sequence of calls \<^verbatim>\<open>log(status, channel_id, video_id, ctx)\<close> on one \<^verbatim>\<open>DatabaseLogger\<close>, and the
  key of a call: the table that its \<^verbatim>\<open>ctx\<close> names and its \<^verbatim>\<open>video_id\<close>.
\<close>

fun log_all ::
  "process \<Rightarrow> DatabaseLogger \<Rightarrow> (bool \<times> string \<times> string \<times> string) list
     \<Rightarrow> (process \<times> DatabaseLogger) result" where
  "log_all w d [] = ((w, d), None)"
| "log_all w d ((status, channel_id, video_id, ctx) # es) =
     (case DatabaseLogger_log w d status channel_id video_id (Some ctx) of
        (s, Some e) \<Rightarrow> (s, Some e)
      | ((w', d'), None) \<Rightarrow> log_all w' d' es)"

fun key_of :: "bool \<times> string \<times> string \<times> string \<Rightarrow> string option \<times> string" where
  "key_of (status, channel_id, video_id, ctx) = (table_name ctx, video_id)"

text \<open>How often \<^verbatim>\<open>self.logger.close()\<close> has been called.\<close>

definition close_calls :: "process \<Rightarrow> nat" where
  "close_calls w = count_list (calls w) Close"

text \<open>The calls of \<^verbatim>\<open>ydl.download\<close> for a list of items.\<close>

definition downloads :: "(string \<times> string) list \<Rightarrow> call list" where
  "downloads items = map (\<lambda>(channel_id, video_id). Download channel_id video_id) items"

text \<open>A Python process that has just started, with \<open>n\<close> console handlers attached.\<close>

definition fresh_process :: "nat \<Rightarrow> process" where
  "fresh_process n = \<lparr>TABLE_EXISTS = [], handlers = n, console = [], shutdowns = 0, calls = [],
                      submitted = []\<rparr>"

text \<open>\<^verbatim>\<open>DatabaseLogger(filepath)\<close>: a connection to the database that the file holds.\<close>

definition DatabaseLogger_init :: "string \<Rightarrow> (string \<rightharpoonup> row list) \<Rightarrow> DatabaseLogger" where
  "DatabaseLogger_init filepath content = \<lparr>db_file = filepath, tables = content, closes = 0\<rparr>"

text \<open>
  Collaborators for the examples: every channel lists \<^verbatim>\<open>vid1\<close> and \<^verbatim>\<open>vid2\<close>; the download of
  \<^verbatim>\<open>vid3\<close> always raises, every other download finishes; every path is a file and the
  separation model never raises.
\<close>

definition example_collaborators :: collaborators where
  "example_collaborators =
     \<lparr>extract_info = (\<lambda>channel_id. Inr [Some ''vid1'', Some ''vid2'']),
      ydl_download = (\<lambda>channel_id video_id.
         if video_id = ''vid3'' then ([''downloading''], Some (CollaboratorError ''vid3''))
         else ([''downloading'', ''finished''], None)),
      isfile = (\<lambda>p. True),
      demucs = (\<lambda>p. None)\<rparr>"

text \<open>The file that the acquisition stage writes for channel \<^verbatim>\<open>chA\<close>, video \<^verbatim>\<open>vid1\<close>.\<close>

definition example_path :: path where
  "example_path = Path (outtmpl (Path ''root'') ''chA'' ''vid1'' ''title'' ''wav'')"

text \<open>
  The tree that the acquisition stage leaves under its \<^verbatim>\<open>save_dir\<close> for that file, and the same
  tree with a directory named \<^verbatim>\<open>.wav\<close> beside the file.
\<close>

definition example_tree :: node where
  "example_tree = Dir [(''chA'', Dir [(''vid1'', Dir [(''title_vid1.wav'', File)])])]"

definition example_tree_with_directory :: node where
  "example_tree_with_directory =
     Dir [(''chA'', Dir [(''vid1'', Dir [(''title_vid1.wav'', File), (''.wav'', Dir [])])])]"

text \<open>A schedule: the jobs end oldest first and none ends after the parent has raised.\<close>

definition in_order :: schedule where
  "in_order = \<lparr>picks = [], stragglers = 0\<rparr>"

text \<open>
  Collaborators whose downloads report no \<^verbatim>\<open>finished\<close> status: the download of \<^verbatim>\<open>vid3\<close> raises,
  every other one returns.
\<close>

definition quiet_collaborators :: collaborators where
  "quiet_collaborators =
     \<lparr>extract_info = (\<lambda>channel_id. Inr [Some ''vid1'', Some ''vid2'']),
      ydl_download = (\<lambda>channel_id video_id.
         if video_id = ''vid3'' then ([''downloading''], Some (CollaboratorError ''vid3''))
         else ([''downloading''], None)),
      isfile = (\<lambda>p. True),
      demucs = (\<lambda>p. None)\<rparr>"

text \<open>A stage built on a logger, with a given worker count and map of videos.\<close>

definition example_downloader ::
  "int \<Rightarrow> logger \<Rightarrow> (string \<times> string list) list \<Rightarrow> YoutubeDownloader" where
  "example_downloader n lg m =
     \<lparr>num_workers = n, logger = lg, channel_ids = [''chA''], channels_file = None,
      save_dir = Path ''root'', logs_dir = Path ''logs'', channel_to_video_map = m\<rparr>"

definition example_separator :: "int \<Rightarrow> logger \<Rightarrow> string list \<Rightarrow> MusicSeparator" where
  "example_separator n lg fps =
     \<lparr>num_workers = n, logger = lg, in_path = Path ''root'', out_path = Path ''root'',
      audio_filepaths = fps\<rparr>"

text \<open>
  The ledger that an earlier run left, with \<^verbatim>\<open>vid1\<close> of channel \<^verbatim>\<open>chA\<close> complete, and the
  enumeration of that channel by a new process on that ledger.
\<close>

definition example_ledger :: DatabaseLogger where
  "example_ledger =
     DatabaseLogger_init ''log.db''
       [''youtubedownloader_logs'' \<mapsto>
          [\<lparr>Status = 1, Channel_ID = ''chA'', Video_ID = ''vid1''\<rparr>]]"

definition example_listed :: "(process \<times> YoutubeDownloader) result" where
  "example_listed =
     get_video_ids example_collaborators (fresh_process 0)
       (example_downloader 1 (Logger (Database example_ledger)) []) ''chA''"

text \<open>
  Five videos to download with \<open>n\<close> workers and a console logger; the download of the third
  raises.
\<close>

definition example_batch :: "int \<Rightarrow> YoutubeDownloader" where
  "example_batch n =
     example_downloader n (Logger Console)
       [(''chA'', [''vid1'', ''vid2'', ''vid3'', ''vid4'', ''vid5''])]"

section \<open>Properties of \<^verbatim>\<open>get_abs_rel_paths\<close>\<close>

lemma relative_to_join:
  assumes "relative_to p b = Inr r"
  shows "joinpath b r = p" and "root r = []"
proof -
  from assms have rel: "is_relative_to p b"
    and r: "r = \<lparr>root = [], tail = drop (length (tail b)) (tail p)\<rparr>"
    by (auto simp: relative_to_def split: if_splits)
  from rel obtain zs where zs: "tail p = tail b @ zs" and rt: "root b = root p"
    by (auto simp: is_relative_to_def prefix_def)
  show "joinpath b r = p"
    by (simp add: joinpath_def r zs rt)
  show "root r = []"
    by (simp add: r)
qed

text \<open>
  C10. Whenever \<open>get_abs_rel_paths\<close> returns a pair, the absolute path is the base path
  joined with the relative path and the relative path has no root. It returns for every
  relative input and for every absolute input located under the base path; for an absolute
  input that is not under the base path it raises \<^verbatim>\<open>ValueError\<close>.
\<close>

theorem get_abs_rel_paths_roundtrip:
  "(\<forall>a r. get_abs_rel_paths i b = Inr (a, r) \<longrightarrow> a = joinpath b r \<and> \<not> isabs r)
   \<and> (\<not> isabs i \<or> is_relative_to i b \<longrightarrow> (\<exists>a r. get_abs_rel_paths i b = Inr (a, r)))
   \<and> (isabs i \<and> \<not> is_relative_to i b \<longrightarrow> get_abs_rel_paths i b = Inl ValueError)"
proof -
  have ret: "a = joinpath b r \<and> \<not> isabs r" if "get_abs_rel_paths i b = Inr (a, r)" for a r
  proof (cases "isabs i")
    case True
    with that have "relative_to i b = Inr r" and "a = i"
      by (auto simp: get_abs_rel_paths_def split: sum.splits)
    then show ?thesis
      using relative_to_join [of i b r] by (simp add: isabs_def)
  next
    case False
    with that show ?thesis
      by (auto simp: get_abs_rel_paths_def)
  qed
  have total: "\<exists>a r. get_abs_rel_paths i b = Inr (a, r)" if "\<not> isabs i \<or> is_relative_to i b"
    using that by (auto simp: get_abs_rel_paths_def relative_to_def)
  have raises: "get_abs_rel_paths i b = Inl ValueError" if "isabs i \<and> \<not> is_relative_to i b"
    using that by (simp add: get_abs_rel_paths_def relative_to_def)
  from ret total raises show ?thesis
    by blast
qed

theorem get_abs_rel_paths_roundtrip_witness:
  "get_abs_rel_paths (Path ''/data/chA/a.wav'') (Path ''/data'')
     = Inr (Path ''/data/chA/a.wav'', Path ''chA/a.wav'')
   \<and> Path ''/data/chA/a.wav'' = joinpath (Path ''/data'') (Path ''chA/a.wav'')
   \<and> \<not> isabs (Path ''chA/a.wav'')
   \<and> isabs (Path ''/data/chA/a.wav'')
   \<and> \<not> is_relative_to (Path ''/data/chA/a.wav'') (Path ''/other'')
   \<and> get_abs_rel_paths (Path ''/data/chA/a.wav'') (Path ''/other'') = Inl ValueError"
proof -
  have ret: "get_abs_rel_paths (Path ''/data/chA/a.wav'') (Path ''/data'')
               = Inr (Path ''/data/chA/a.wav'', Path ''chA/a.wav'')"
    by (simp add: get_abs_rel_paths_def Path_def parse_root_def isabs_def relative_to_def
        is_relative_to_def)
  have out: "isabs (Path ''/data/chA/a.wav'')
             \<and> \<not> is_relative_to (Path ''/data/chA/a.wav'') (Path ''/other'')"
    by (simp add: Path_def parse_root_def isabs_def is_relative_to_def)
  from ret get_abs_rel_paths_roundtrip [of "Path ''/data/chA/a.wav''" "Path ''/data''"]
  have "Path ''/data/chA/a.wav'' = joinpath (Path ''/data'') (Path ''chA/a.wav'')
        \<and> \<not> isabs (Path ''chA/a.wav'')"
    by blast
  moreover from out get_abs_rel_paths_roundtrip [of "Path ''/data/chA/a.wav''" "Path ''/other''"]
  have "get_abs_rel_paths (Path ''/data/chA/a.wav'') (Path ''/other'') = Inl ValueError"
    by blast
  ultimately show ?thesis
    using ret out by simp
qed

section \<open>The identity that the separation stage logs\<close>

text \<open>
  C3. For a file \<open>.../g/i/f\<close> that exists and that the separation model accepts,
  \<open>separate_audio\<close> logs the parent directory \<open>i\<close> as the channel and the grandparent
  directory \<open>g\<close> as the video: for \<^verbatim>\<open>{root}/chA/vid1/title_vid1.wav\<close> it logs channel \<^verbatim>\<open>vid1\<close> and
  video \<^verbatim>\<open>chA\<close>, the reverse of the layout \<^verbatim>\<open>{save_dir}/{channel_id}/{video_id}/...\<close> under which
  the acquisition stage saved the file.
\<close>

theorem separate_audio_identity:
  assumes "isfile c (PPath p)" and "demucs c (PPath p) = None"
    and "tail p = pre @ [g, i, f]"
  shows "separate_audio c (PPath p) (w, l)
         = logger_log (w\<lparr>calls := calls w @ [Separate (PPath p)]\<rparr>) l True i g
             (Some ''MusicSeparator'')"
  using assms
  by (simp add: separate_audio_def parents_at_def name_def parent_def butlast_append)

theorem separate_audio_identity_witness:
  "isfile example_collaborators (PPath example_path)
   \<and> demucs example_collaborators (PPath example_path) = None
   \<and> tail example_path = [''root''] @ [''chA'', ''vid1'', ''title_vid1.wav'']
   \<and> logger_rows (snd (fst (separate_audio example_collaborators (PPath example_path)
         (fresh_process 0, Logger (Database (DatabaseLogger_init ''log.db'' Map.empty))))))
       ''MusicSeparator_logs''
     = [\<lparr>Status = 1, Channel_ID = ''vid1'', Video_ID = ''chA''\<rparr>]"
proof -
  have a: "isfile example_collaborators (PPath example_path)"
    and b: "demucs example_collaborators (PPath example_path) = None"
    by (simp_all add: example_collaborators_def)
  have c: "tail example_path = [''root''] @ [''chA'', ''vid1'', ''title_vid1.wav'']"
    by (simp add: example_path_def outtmpl_def Path_def str_path_def parse_root_def)
  have "logger_rows (snd (fst (logger_log
           (fresh_process 0\<lparr>calls := calls (fresh_process 0) @ [Separate (PPath example_path)]\<rparr>)
           (Logger (Database (DatabaseLogger_init ''log.db'' Map.empty)))
           True ''vid1'' ''chA'' (Some ''MusicSeparator'')))) ''MusicSeparator_logs''
        = [\<lparr>Status = 1, Channel_ID = ''vid1'', Video_ID = ''chA''\<rparr>]"
    by code_simp
  with a b c separate_audio_identity [OF a b c] show ?thesis
    by simp
qed

section \<open>Logging through \<^verbatim>\<open>Loggers\<close>\<close>

text \<open>
  C4. A stage logs with four arguments (status, channel, video, stage name). \<^verbatim>\<open>Loggers.log\<close>
  takes three, so the call raises \<^verbatim>\<open>TypeError\<close> and reaches no sink: no record is upserted and
  no console line is written. Called with three arguments, \<^verbatim>\<open>Loggers.log\<close> passes three to
  each sink, and a durable sink, which requires the stage name, raises \<^verbatim>\<open>TypeError\<close> in its
  turn, before it writes.
\<close>

theorem Loggers_log_fan_out_raises:
  "logger_log w (Loggers ls) status channel_id video_id (Some ctx)
     = ((w, Loggers ls), Some TypeError)
   \<and> logger_log w (Loggers (Database d # ls)) status channel_id video_id None
     = ((w, Loggers (Database d # ls)), Some TypeError)"
  by (simp add: Loggers_log_def DatabaseLogger_log_def)

section \<open>The worker count\<close>

text \<open>A stage that is configured without \<^verbatim>\<open>num_workers\<close> has the worker count 0.\<close>

lemma default_num_workers:
  "YoutubeDownloader_init ids file ls save logs None lg = Inr self \<Longrightarrow> num_workers self = 0"
  "MusicSeparator_init dir out None at mk ex lg = Inr sep \<Longrightarrow> num_workers sep = 0"
  by (auto simp: YoutubeDownloader_init_def MusicSeparator_init_def Let_def
      split: if_splits sum.splits option.splits)

text \<open>
  C6. With \<^verbatim>\<open>num_workers = 0\<close>, the default of both stages, \<^verbatim>\<open>Pool(processes=0)\<close> raises
  \<^verbatim>\<open>ValueError\<close>: the run fails at the construction of the pool, no job is executed and the
  state is as before.
\<close>

theorem start_download_zero_workers:
  "start_download c sched w (self\<lparr>num_workers := 0\<rparr>)
     = ((w, self\<lparr>num_workers := 0\<rparr>), Some ValueError)
   \<and> separate_all c sched w (sep\<lparr>num_workers := 0\<rparr>)
     = ((w, sep\<lparr>num_workers := 0\<rparr>), Some ValueError)"
  by (simp add: start_download_def separate_all_def pool_run_def Pool_def)

section \<open>The calls that a run makes\<close>

text \<open>
  Logging and closing neither make nor submit a call of a collaborator; a download makes
  one, a separation at most one; the pool changes nothing but the console and the record of
  the calls, and the logger of the parent stays as it was.
\<close>

lemma DatabaseLogger_log_calls:
  "calls (fst (fst (DatabaseLogger_log w d status channel_id video_id ctx_arg))) = calls w
   \<and> submitted (fst (fst (DatabaseLogger_log w d status channel_id video_id ctx_arg))) = submitted w"
  by (auto simp: DatabaseLogger_log_def create_table_def insert_or_replace_def Let_def
      split: option.splits prod.splits if_splits)

lemma sink_log_calls:
  "calls (fst (fst (sink_log w l status channel_id video_id ctx_arg))) = calls w
   \<and> submitted (fst (fst (sink_log w l status channel_id video_id ctx_arg))) = submitted w"
proof (cases l)
  case (Database d)
  then show ?thesis
    using DatabaseLogger_log_calls [of w d status channel_id video_id ctx_arg]
    by (auto split: prod.splits)
next
  case Console
  then show ?thesis
    by (auto simp: ConsoleLogger_log_def split: option.splits)
qed

lemma log_each_calls:
  "calls (fst (fst (log_each w ls status channel_id video_id))) = calls w
   \<and> submitted (fst (fst (log_each w ls status channel_id video_id))) = submitted w"
proof (induction ls arbitrary: w)
  case Nil
  show ?case by simp
next
  case (Cons l ls)
  obtain w1 l1 r where step: "sink_log w l status channel_id video_id None = ((w1, l1), r)"
    by (metis surj_pair)
  then have "calls w1 = calls w \<and> submitted w1 = submitted w"
    using sink_log_calls [of w l status channel_id video_id None] by simp
  with step Cons.IH [of w1] show ?case
    by (auto split: option.splits prod.splits)
qed

lemma logger_log_calls:
  "calls (fst (fst (logger_log w l status channel_id video_id ctx_arg))) = calls w
   \<and> submitted (fst (fst (logger_log w l status channel_id video_id ctx_arg))) = submitted w"
proof (cases l)
  case (Logger x)
  then show ?thesis
    using sink_log_calls [of w x status channel_id video_id ctx_arg]
    by (auto split: prod.splits)
next
  case (Loggers xs)
  then show ?thesis
    using log_each_calls [of w xs status channel_id video_id]
    by (auto simp: Loggers_log_def split: prod.splits option.splits)
qed

lemma logger_hook_calls:
  "calls (fst (fst (logger_hook channel_id video_id ds (w, l)))) = calls w"
proof (induction ds arbitrary: w l)
  case Nil
  show ?case by simp
next
  case (Cons d ds)
  show ?case
  proof (cases "d = ''finished''")
    case False
    with Cons.IH show ?thesis by simp
  next
    case True
    obtain w1 l1 r where step:
      "logger_log w l True channel_id video_id (Some ''YoutubeDownloader'') = ((w1, l1), r)"
      by (metis surj_pair)
    then have "calls w1 = calls w"
      using logger_log_calls [of w l True channel_id video_id "Some ''YoutubeDownloader''"] by simp
    with True step Cons.IH [of w1 l1] show ?thesis
      by (auto split: option.splits)
  qed
qed

lemma download_audio_calls:
  "calls (fst (fst (download_audio c channel_id video_id (w, l))))
     = calls w @ [Download channel_id video_id]"
  using logger_hook_calls [of channel_id video_id "fst (ydl_download c channel_id video_id)"
      "w\<lparr>calls := calls w @ [Download channel_id video_id]\<rparr>" l]
  by (auto simp: download_audio_def split: prod.splits option.splits)

lemma separate_audio_calls:
  "calls (fst (fst (separate_audio c p (w, l)))) = calls w
   \<or> calls (fst (fst (separate_audio c p (w, l)))) = calls w @ [Separate p]"
  using logger_log_calls
  by (auto simp: separate_audio_def Let_def split: option.splits pathlike.splits sum.splits)

lemma sink_close_calls:
  "calls (fst (sink_close w l)) = calls w \<and> submitted (fst (sink_close w l)) = submitted w"
  by (cases l) (simp_all add: ConsoleLogger_close_def)

lemma Loggers_close_calls:
  "calls (fst (Loggers_close w ls)) = calls w \<and> submitted (fst (Loggers_close w ls)) = submitted w"
proof (induction ls arbitrary: w)
  case Nil
  show ?case by simp
next
  case (Cons l ls)
  obtain w1 l1 where s: "sink_close w l = (w1, l1)"
    by (cases "sink_close w l")
  then have "calls w1 = calls w \<and> submitted w1 = submitted w"
    using sink_close_calls [of w l] by simp
  with Cons.IH [of w1] s show ?case
    by (auto split: prod.splits)
qed

lemma logger_close_calls:
  "calls (fst (logger_close w l)) = calls w @ [Close]
   \<and> submitted (fst (logger_close w l)) = submitted w"
proof (cases l)
  case (Logger x)
  then show ?thesis
    using sink_close_calls [of "w\<lparr>calls := calls w @ [Close]\<rparr>" x]
    by (auto split: prod.splits)
next
  case (Loggers xs)
  then show ?thesis
    using Loggers_close_calls [of "w\<lparr>calls := calls w @ [Close]\<rparr>" xs]
    by (auto split: prod.splits)
qed

lemma in_worker_keeps:
  "submitted (fst (fst (in_worker j s))) = submitted (fst s)"
  "snd (fst (in_worker j s)) = snd s"
  "calls (fst (fst (in_worker j s))) = calls (fst (fst (j s)))"
  "snd (in_worker j s) = snd (j s)"
  by (auto simp: in_worker_def split: prod.splits)

lemma run_stragglers_keeps:
  "submitted (fst (run_stragglers js s)) = submitted (fst s) \<and> snd (run_stragglers js s) = snd s"
proof (induction js arbitrary: s)
  case Nil
  show ?case by simp
next
  case (Cons a js)
  obtain i j where a: "a = (i, j)" by (cases a)
  show ?case
    using Cons.IH [of "fst (in_worker j s)"] in_worker_keeps(1,2) [of j s] by (simp add: a)
qed

lemma serve_keeps:
  "submitted (fst (fst (serve n late order res s))) = submitted (fst s)
   \<and> snd (fst (serve n late order res s)) = snd s"
proof (induction order arbitrary: res s)
  case Nil
  show ?case by simp
next
  case (Cons a order)
  obtain i j where a: "a = (i, j)" by (cases a)
  show ?case
  proof (cases "first_failure res [0..<n]")
    case (Some e)
    then show ?thesis
      using run_stragglers_keeps [of "take late ((i, j) # order)" s] by (simp add: a)
  next
    case None
    obtain s' r where step: "in_worker j s = (s', r)" by (cases "in_worker j s")
    with None have eq: "serve n late (a # order) res s = serve n late order (res(i \<mapsto> r)) s'"
      by (simp add: a)
    have "submitted (fst s') = submitted (fst s)" and "snd s' = snd s"
      using in_worker_keeps(1,2) [of j s] step by simp_all
    with Cons.IH [of "res(i \<mapsto> r)" s'] show ?thesis
      unfolding eq by (simp only:)
  qed
qed

lemma pool_run_submitted:
  "submitted (fst (fst (pool_run n sched tasks (w, l))))
     = submitted w @ (if Pool n = None then map fst tasks else [])"
  using serve_keeps [of "length tasks" "stragglers sched" _ Map.empty
      "(w\<lparr>submitted := submitted w @ map fst tasks\<rparr>, l)"]
  by (auto simp: pool_run_def Let_def split: option.splits)

lemma pool_run_logger: "snd (fst (pool_run n sched tasks (w, l))) = l"
  using serve_keeps [of "length tasks" "stragglers sched" _ Map.empty
      "(w\<lparr>submitted := submitted w @ map fst tasks\<rparr>, l)"]
  by (auto simp: pool_run_def Let_def split: option.splits)

lemma completion_order_subset:
  "set (completion_order n ps running waiting) \<subseteq> set running \<union> set waiting"
proof (induction n ps running waiting rule: completion_order.induct)
  case (1 ps running waiting)
  show ?case by simp
next
  case (2 n ps waiting)
  show ?case by simp
next
  case (3 n ps r rs waiting)
  define k where "k = (case ps of [] \<Rightarrow> 0 | p # qs \<Rightarrow> p mod Suc (length rs))"
  have k: "k < length (r # rs)"
    by (auto simp: k_def split: list.splits)
  have "set (completion_order n (tl ps)
               (take k (r # rs) @ drop (Suc k) (r # rs) @ take 1 waiting) (drop 1 waiting))
        \<subseteq> set (take k (r # rs) @ drop (Suc k) (r # rs) @ take 1 waiting) \<union> set (drop 1 waiting)"
    using 3 [of k] by (simp add: k_def)
  also have "\<dots> \<subseteq> set (r # rs) \<union> set waiting"
    using set_take_subset [of k "r # rs"] set_drop_subset [of "Suc k" "r # rs"]
      set_take_subset [of 1 waiting] set_drop_subset [of 1 waiting]
    by auto
  finally have rest: "set (completion_order n (tl ps)
               (take k (r # rs) @ drop (Suc k) (r # rs) @ take 1 waiting) (drop 1 waiting))
        \<subseteq> set (r # rs) \<union> set waiting" .
  have "(r # rs) ! k \<in> set (r # rs)"
    using k nth_mem by blast
  with rest show ?case
    unfolding completion_order.simps Let_def k_def [symmetric] by auto
qed

section \<open>Closing the logger\<close>

lemma run_stragglers_close_calls:
  assumes "\<forall>(i, j) \<in> set js. \<forall>s. close_calls (fst (fst (j s))) = close_calls (fst s)"
  shows "close_calls (fst (run_stragglers js s)) = close_calls (fst s)"
  using assms
proof (induction js arbitrary: s)
  case Nil
  show ?case by simp
next
  case (Cons a js)
  obtain i j where a: "a = (i, j)" by (cases a)
  from Cons.prems a have "close_calls (fst (fst (j s))) = close_calls (fst s)"
    by fastforce
  then have "close_calls (fst (fst (in_worker j s))) = close_calls (fst s)"
    unfolding close_calls_def in_worker_keeps(3) .
  moreover from Cons.prems have "\<forall>(i, j) \<in> set js. \<forall>s.
                                  close_calls (fst (fst (j s))) = close_calls (fst s)"
    by simp
  then have "close_calls (fst (run_stragglers js (fst (in_worker j s))))
             = close_calls (fst (fst (in_worker j s)))"
    by (rule Cons.IH)
  ultimately show ?case
    by (simp add: a)
qed

lemma serve_close_calls:
  assumes "\<forall>(i, j) \<in> set order. \<forall>s. close_calls (fst (fst (j s))) = close_calls (fst s)"
  shows "close_calls (fst (fst (serve n late order res s))) = close_calls (fst s)"
  using assms
proof (induction order arbitrary: res s)
  case Nil
  show ?case by simp
next
  case (Cons a order)
  obtain i j where a: "a = (i, j)" by (cases a)
  show ?case
  proof (cases "first_failure res [0..<n]")
    case (Some e)
    have "\<forall>(i, j) \<in> set (take late (a # order)). \<forall>s.
            close_calls (fst (fst (j s))) = close_calls (fst s)"
      using Cons.prems by (meson in_set_takeD)
    from run_stragglers_close_calls [OF this, of s] Some show ?thesis
      by (simp add: a)
  next
    case None
    obtain s' r where step: "in_worker j s = (s', r)" by (cases "in_worker j s")
    with None have eq: "serve n late (a # order) res s = serve n late order (res(i \<mapsto> r)) s'"
      by (simp add: a)
    from Cons.prems a have "close_calls (fst (fst (j s))) = close_calls (fst s)"
      by fastforce
    then have "close_calls (fst (fst (in_worker j s))) = close_calls (fst s)"
      unfolding close_calls_def in_worker_keeps(3) .
    with step have "close_calls (fst s') = close_calls (fst s)"
      by simp
    moreover from Cons.prems have "\<forall>(i, j) \<in> set order. \<forall>s.
                                    close_calls (fst (fst (j s))) = close_calls (fst s)"
      by simp
    then have "close_calls (fst (fst (serve n late order (res(i \<mapsto> r)) s')))
               = close_calls (fst s')"
      by (rule Cons.IH)
    ultimately show ?thesis
      unfolding eq by (simp only:)
  qed
qed

lemma pool_run_close_calls:
  assumes "\<forall>t \<in> set tasks. \<forall>s. close_calls (fst (fst (snd t s))) = close_calls (fst s)"
  shows "close_calls (fst (fst (pool_run n sched tasks (w, l)))) = close_calls w"
proof -
  let ?jobs = "enumerate 0 (map snd tasks)"
  let ?order = "completion_order (length tasks) (picks sched)
                  (take (nat n) ?jobs) (drop (nat n) ?jobs)"
  have "set ?order \<subseteq> set ?jobs"
    using completion_order_subset [of "length tasks" "picks sched" "take (nat n) ?jobs"
        "drop (nat n) ?jobs"] set_take_subset [of "nat n" ?jobs] set_drop_subset [of "nat n" ?jobs]
    by blast
  moreover have "\<forall>s. close_calls (fst (fst (j s))) = close_calls (fst s)"
    if "(i, j) \<in> set ?jobs" for i j
  proof -
    from that have "j \<in> snd ` set tasks"
      by (auto simp: in_set_enumerate_eq)
    with assms show ?thesis by auto
  qed
  ultimately have "\<forall>(i, j) \<in> set ?order. \<forall>s.
                     close_calls (fst (fst (j s))) = close_calls (fst s)"
    by blast
  from serve_close_calls [OF this, of "length tasks" "stragglers sched" Map.empty
      "(w\<lparr>submitted := submitted w @ map fst tasks\<rparr>, l)"]
  show ?thesis
    by (auto simp: pool_run_def Let_def close_calls_def split: option.splits)
qed

lemma download_tasks_close_calls:
  "\<forall>t \<in> set (download_tasks c items). \<forall>s.
     close_calls (fst (fst (snd t s))) = close_calls (fst s)"
proof (intro ballI allI)
  fix t :: "call \<times> job" and s :: state
  assume "t \<in> set (download_tasks c items)"
  then obtain g v where j: "snd t = download_audio c g v"
    by (auto simp: download_tasks_def)
  obtain w l where s: "s = (w, l)" by (cases s)
  show "close_calls (fst (fst (snd t s))) = close_calls (fst s)"
    using download_audio_calls [of c g v w l] by (simp add: j s close_calls_def)
qed

lemma separate_tasks_close_calls:
  "\<forall>t \<in> set (separate_tasks c paths). \<forall>s.
     close_calls (fst (fst (snd t s))) = close_calls (fst s)"
proof (intro ballI allI)
  fix t :: "call \<times> job" and s :: state
  assume "t \<in> set (separate_tasks c paths)"
  then obtain p where j: "snd t = separate_audio_star c p"
    by (auto simp: separate_tasks_def)
  obtain w l where s: "s = (w, l)" by (cases s)
  show "close_calls (fst (fst (snd t s))) = close_calls (fst s)"
    using separate_audio_calls [of c "PStr p" w l]
    by (auto simp: j s separate_audio_star_def close_calls_def)
qed

lemma stage_run_close_calls:
  assumes "\<forall>t \<in> set tasks. \<forall>s. close_calls (fst (fst (snd t s))) = close_calls (fst s)"
    and "run = (case pool_run n sched tasks (w, l) of
                  ((w', l'), Some e) \<Rightarrow> ((w', l'), Some e)
                | ((w', l'), None) \<Rightarrow> (logger_close w' l', None))"
  shows "close_calls (fst (fst run)) = close_calls w + (if snd run = None then 1 else 0)
         \<and> (snd run = None \<longrightarrow> last (calls (fst (fst run))) = Close)"
proof -
  obtain w' l' r where p: "pool_run n sched tasks (w, l) = ((w', l'), r)"
    by (metis surj_pair)
  with pool_run_close_calls [OF assms(1), of n sched w l] have keep: "close_calls w' = close_calls w"
    by simp
  show ?thesis
  proof (cases r)
    case (Some e)
    with p keep assms(2) show ?thesis by simp
  next
    case None
    with p assms(2) have "run = (logger_close w' l', None)" by simp
    with keep logger_close_calls [of w' l'] show ?thesis
      by (simp add: close_calls_def)
  qed
qed

text \<open>
  C7, as the code has it. A run of the acquisition stage or of the separation stage that
  returns has called \<^verbatim>\<open>self.logger.close()\<close> exactly once, as its last call; a run that raises
  (the pool cannot be built, the stage cannot be pickled, or a job raises) has not called it.
\<close>

theorem close_only_on_return:
  "close_calls (fst (fst (start_download c sched w self)))
     = close_calls w + (if snd (start_download c sched w self) = None then 1 else 0)
   \<and> (snd (start_download c sched w self) = None
        \<longrightarrow> last (calls (fst (fst (start_download c sched w self)))) = Close)
   \<and> close_calls (fst (fst (separate_all c sched w sep)))
     = close_calls w + (if snd (separate_all c sched w sep) = None then 1 else 0)
   \<and> (snd (separate_all c sched w sep) = None
        \<longrightarrow> last (calls (fst (fst (separate_all c sched w sep)))) = Close)"
proof -
  let ?d = "case pool_run (num_workers self) sched
                   (download_tasks c (map_items (channel_to_video_map self))) (w, logger self) of
              ((w', l'), Some e) \<Rightarrow> ((w', l'), Some e)
            | ((w', l'), None) \<Rightarrow> (logger_close w' l', None)"
  let ?s = "case pool_run (num_workers sep) sched
                   (separate_tasks c (audio_filepaths sep)) (w, logger sep) of
              ((w', l'), Some e) \<Rightarrow> ((w', l'), Some e)
            | ((w', l'), None) \<Rightarrow> (logger_close w' l', None)"
  have d1: "fst (fst (start_download c sched w self)) = fst (fst ?d)"
    and d2: "snd (start_download c sched w self) = snd ?d"
    by (auto simp: start_download_def split: prod.splits option.splits)
  have s1: "fst (fst (separate_all c sched w sep)) = fst (fst ?s)"
    and s2: "snd (separate_all c sched w sep) = snd ?s"
    by (auto simp: separate_all_def split: prod.splits option.splits)
  from stage_run_close_calls [OF download_tasks_close_calls refl]
    stage_run_close_calls [OF separate_tasks_close_calls refl]
  show ?thesis
    unfolding d1 d2 s1 s2 by blast
qed

theorem close_only_on_return_witness:
  "snd (start_download quiet_collaborators in_order (fresh_process 1)
          (example_downloader 1 (Logger Console) [(''chA'', [''vid1''])])) = None
   \<and> close_calls (fst (fst (start_download quiet_collaborators in_order (fresh_process 1)
          (example_downloader 1 (Logger Console) [(''chA'', [''vid1''])])))) = 1
   \<and> last (calls (fst (fst (start_download quiet_collaborators in_order (fresh_process 1)
          (example_downloader 1 (Logger Console) [(''chA'', [''vid1''])]))))) = Close
   \<and> calls (fst (fst (start_download quiet_collaborators in_order (fresh_process 1)
          (example_downloader 1 (Logger Console) [(''chA'', [''vid1''])]))))
     = [Download ''chA'' ''vid1'', Close]
   \<and> snd (separate_all example_collaborators in_order (fresh_process 1)
          (example_separator 1 (Logger Console) [])) = None
   \<and> close_calls (fst (fst (separate_all example_collaborators in_order (fresh_process 1)
          (example_separator 1 (Logger Console) [])))) = 1
   \<and> last (calls (fst (fst (separate_all example_collaborators in_order (fresh_process 1)
          (example_separator 1 (Logger Console) []))))) = Close"
proof -
  have d: "snd (start_download quiet_collaborators in_order (fresh_process 1)
             (example_downloader 1 (Logger Console) [(''chA'', [''vid1''])])) = None"
    by code_simp
  have c: "calls (fst (fst (start_download quiet_collaborators in_order (fresh_process 1)
             (example_downloader 1 (Logger Console) [(''chA'', [''vid1''])]))))
           = [Download ''chA'' ''vid1'', Close]"
    by code_simp
  have s: "snd (separate_all example_collaborators in_order (fresh_process 1)
             (example_separator 1 (Logger Console) [])) = None"
    by code_simp
  have z: "close_calls (fresh_process 1) = 0"
    by (simp add: close_calls_def fresh_process_def)
  from close_only_on_return [of quiet_collaborators in_order "fresh_process 1"
      "example_downloader 1 (Logger Console) [(''chA'', [''vid1''])]"]
  have "close_calls (fst (fst (start_download quiet_collaborators in_order (fresh_process 1)
          (example_downloader 1 (Logger Console) [(''chA'', [''vid1''])])))) = 1
        \<and> last (calls (fst (fst (start_download quiet_collaborators in_order (fresh_process 1)
          (example_downloader 1 (Logger Console) [(''chA'', [''vid1''])]))))) = Close"
    using d z by simp
  moreover from close_only_on_return [of example_collaborators in_order "fresh_process 1" _
      "example_separator 1 (Logger Console) []"]
  have "close_calls (fst (fst (separate_all example_collaborators in_order (fresh_process 1)
          (example_separator 1 (Logger Console) [])))) = 1
        \<and> last (calls (fst (fst (separate_all example_collaborators in_order (fresh_process 1)
          (example_separator 1 (Logger Console) []))))) = Close"
    using s z by simp
  ultimately show ?thesis
    using d c s by blast
qed

text \<open>
  The claim as stated fails: when a job raises, the run raises and the logger is never
  closed, in the acquisition stage and in the separation stage alike.
\<close>

theorem close_skipped_when_job_raises:
  "snd (start_download quiet_collaborators in_order (fresh_process 1)
          (example_downloader 1 (Logger Console) [(''chA'', [''vid3''])]))
     = Some (CollaboratorError ''vid3'')
   \<and> close_calls (fst (fst (start_download quiet_collaborators in_order (fresh_process 1)
          (example_downloader 1 (Logger Console) [(''chA'', [''vid3''])])))) = 0
   \<and> snd (separate_all example_collaborators in_order (fresh_process 1)
          (example_separator 1 (Logger Console) [''root/chA/vid1/.wav'']))
     = Some TypeError
   \<and> close_calls (fst (fst (separate_all example_collaborators in_order (fresh_process 1)
          (example_separator 1 (Logger Console) [''root/chA/vid1/.wav''])))) = 0"
  by code_simp

section \<open>A job that raises\<close>

text \<open>
  What the parent raises does not depend on the schedule: it is the exception of the first
  job, in the order of submission, that raises.
\<close>

lemma first_failure_mono:
  assumes "\<forall>i. res i = None \<or> res i = Some (out i)"
    and "first_failure res xs = Some e"
  shows "first_failure (\<lambda>i. Some (out i)) xs = Some e"
  using assms(2)
proof (induction xs)
  case Nil
  then show ?case by simp
next
  case (Cons i xs)
  from assms(1) have "res i = None \<or> res i = Some (out i)" by blast
  with Cons show ?case
    by (auto split: option.splits)
qed

lemma first_failure_total:
  assumes "\<forall>i \<in> set xs. res i = Some (out i)"
  shows "first_failure res xs = first_failure (\<lambda>i. Some (out i)) xs"
  using assms by (induction xs) (auto split: option.splits)

lemma first_failure_skip:
  assumes "\<forall>i \<in> set xs. res i = Some None"
  shows "first_failure res (xs @ ys) = first_failure res ys"
  using assms by (induction xs) auto

lemma serve_result:
  assumes "\<forall>i. res i = None \<or> res i = Some (out i)"
    and "\<forall>(i, j) \<in> set order. \<forall>w. snd (j (w, l)) = out i"
    and "\<forall>i < n. res i \<noteq> None \<or> i \<in> fst ` set order"
    and "snd s = l"
  shows "snd (serve n late order res s) = first_failure (\<lambda>i. Some (out i)) [0..<n]"
  using assms
proof (induction order arbitrary: res s)
  case Nil
  then have "\<forall>i \<in> set [0..<n]. res i = Some (out i)"
    by (metis atLeastLessThan_iff empty_iff image_empty list.set(1) set_upt)
  then have "first_failure res [0..<n] = first_failure (\<lambda>i. Some (out i)) [0..<n]"
    by (rule first_failure_total)
  then show ?case
    by (simp only: serve.simps snd_conv)
next
  case (Cons a order)
  obtain i j where a: "a = (i, j)" by (cases a)
  show ?case
  proof (cases "first_failure res [0..<n]")
    case (Some e)
    with first_failure_mono [OF Cons.prems(1)] show ?thesis
      by (simp add: a)
  next
    case None
    obtain s' r where step: "in_worker j s = (s', r)" by (cases "in_worker j s")
    with None have eq: "serve n late (a # order) res s = serve n late order (res(i \<mapsto> r)) s'"
      by (simp add: a)
    obtain w where s: "s = (w, l)"
      using Cons.prems(4) by (cases s) simp
    from Cons.prems(2) a have "snd (j (w, l)) = out i"
      by fastforce
    with step s have r: "r = out i"
      using in_worker_keeps(4) [of j s] by simp
    from step Cons.prems(4) have l: "snd s' = l"
      using in_worker_keeps(2) [of j s] by simp
    have 1: "\<forall>k. (res(i \<mapsto> r)) k = None \<or> (res(i \<mapsto> r)) k = Some (out k)"
      using Cons.prems(1) r by simp
    have 2: "\<forall>(i, j) \<in> set order. \<forall>w. snd (j (w, l)) = out i"
      using Cons.prems(2) by simp
    have 3: "\<forall>k < n. (res(i \<mapsto> r)) k \<noteq> None \<or> k \<in> fst ` set order"
      using Cons.prems(3) a by auto
    show ?thesis
      unfolding eq using Cons.IH [OF 1 2 3 l] .
  qed
qed

lemma completion_order_set:
  assumes "n = length running + length waiting" and "running = [] \<longrightarrow> waiting = []"
  shows "set (completion_order n ps running waiting) = set running \<union> set waiting"
  using assms
proof (induction n ps running waiting rule: completion_order.induct)
  case (1 ps running waiting)
  then show ?case by simp
next
  case (2 n ps waiting)
  then show ?case by simp
next
  case (3 n ps r rs waiting)
  define k where "k = (case ps of [] \<Rightarrow> 0 | p # qs \<Rightarrow> p mod Suc (length rs))"
  define running' where "running' = take k (r # rs) @ drop (Suc k) (r # rs) @ take 1 waiting"
  have k: "k < length (r # rs)"
    by (auto simp: k_def split: list.splits)
  have len: "n = length running' + length (drop 1 waiting)"
    using 3(2) k by (auto simp: running'_def)
  have emp: "running' = [] \<longrightarrow> drop 1 waiting = []"
    by (auto simp: running'_def)
  have "set (completion_order n (tl ps) running' (drop 1 waiting))
        = set running' \<union> set (drop 1 waiting)"
    using 3(1) [of k, OF _ _ ] len emp unfolding running'_def k_def by blast
  moreover have "set (r # rs)
                 = set (take k (r # rs)) \<union> {(r # rs) ! k} \<union> set (drop (Suc k) (r # rs))"
  proof -
    have "set (r # rs) = set (take k (r # rs) @ (r # rs) ! k # drop (Suc k) (r # rs))"
      by (rule arg_cong [OF id_take_nth_drop [OF k]])
    also have "\<dots> = set (take k (r # rs)) \<union> {(r # rs) ! k} \<union> set (drop (Suc k) (r # rs))"
      by (simp only: set_append list.simps(15) Un_insert_right Un_insert_left Un_empty_right)
    finally show ?thesis .
  qed
  moreover have "set waiting = set (take 1 waiting) \<union> set (drop 1 waiting)"
    by (metis append_take_drop_id set_append)
  ultimately have "insert ((r # rs) ! k) (set (completion_order n (tl ps) running' (drop 1 waiting)))
                   = set (r # rs) \<union> set waiting"
    unfolding running'_def by auto
  then show ?case
    unfolding completion_order.simps Let_def k_def [symmetric] running'_def [symmetric] by simp
qed

lemma pool_run_result:
  assumes "Pool n = None" and "picklable l"
    and "\<forall>i < length tasks. \<forall>w. snd (snd (tasks ! i) (w, l)) = out i"
  shows "snd (pool_run n sched tasks (w, l)) = first_failure (\<lambda>i. Some (out i)) [0..<length tasks]"
proof -
  let ?jobs = "enumerate 0 (map snd tasks)"
  let ?order = "completion_order (length tasks) (picks sched)
                  (take (nat n) ?jobs) (drop (nat n) ?jobs)"
  from assms(1) have n: "0 < nat n"
    by (simp add: Pool_def split: if_splits)
  have "length tasks = length (take (nat n) ?jobs) + length (drop (nat n) ?jobs)"
    by simp
  moreover have "take (nat n) ?jobs = [] \<longrightarrow> drop (nat n) ?jobs = []"
    using n by auto
  ultimately have "set ?order = set (take (nat n) ?jobs) \<union> set (drop (nat n) ?jobs)"
    by (rule completion_order_set)
  then have order: "set ?order = set ?jobs"
    by (metis append_take_drop_id set_append)
  have 2: "\<forall>(i, j) \<in> set ?order. \<forall>w. snd (j (w, l)) = out i"
    unfolding order using assms(3) by (auto simp: in_set_enumerate_eq)
  have 3: "\<forall>i < length tasks. Map.empty i \<noteq> None \<or> i \<in> fst ` set ?order"
  proof (intro allI impI)
    fix i
    assume "i < length tasks"
    then have "(i, map snd tasks ! i) \<in> set ?jobs"
      by (simp add: in_set_enumerate_eq)
    then have "i \<in> fst ` set ?jobs"
      by force
    then show "Map.empty i \<noteq> None \<or> i \<in> fst ` set ?order"
      unfolding order by blast
  qed
  have 1: "\<forall>i. Map.empty i = None \<or> Map.empty i = Some (out i)"
    by simp
  from serve_result [OF 1 2 3, of "(w\<lparr>submitted := submitted w @ map fst tasks\<rparr>, l)"
      "stragglers sched"]
  show ?thesis
    using assms(1,2) by (simp add: pool_run_def Let_def)
qed

lemma logger_log_picklable:
  assumes "picklable l"
  shows "snd (logger_log w l status channel_id video_id (Some ctx)) = Some TypeError"
proof (cases l)
  case (Logger x)
  with assms show ?thesis
    by (cases x) (auto simp: ConsoleLogger_log_def split: prod.splits)
next
  case (Loggers xs)
  then show ?thesis
    by (simp add: Loggers_log_def)
qed

lemma logger_hook_picklable:
  assumes "picklable l"
  shows "snd (logger_hook channel_id video_id ds (w, l))
         = (if ''finished'' \<in> set ds then Some TypeError else None)"
proof (induction ds)
  case Nil
  show ?case by simp
next
  case (Cons d ds)
  show ?case
  proof (cases "d = ''finished''")
    case True
    with logger_log_picklable [OF assms, of w True channel_id video_id "''YoutubeDownloader''"]
    show ?thesis
      by (auto split: prod.splits option.splits)
  next
    case False
    with Cons show ?thesis by simp
  qed
qed

lemma download_audio_picklable:
  assumes "picklable l"
  shows "snd (download_audio c channel_id video_id (w, l))
         = (if ''finished'' \<in> set (fst (ydl_download c channel_id video_id)) then Some TypeError
            else snd (ydl_download c channel_id video_id))"
  using logger_hook_picklable [OF assms, of channel_id video_id
      "fst (ydl_download c channel_id video_id)"
      "w\<lparr>calls := calls w @ [Download channel_id video_id]\<rparr>"]
  by (auto simp: download_audio_def split: prod.splits option.splits)

lemma upt_split: "k < n \<Longrightarrow> [0..<n] = [0..<k] @ k # [Suc k..<n]"
  using upt_add_eq_append [of 0 k "n - k"] upt_conv_Cons [of k n] by simp

lemma first_failure_reaches:
  assumes "\<forall>i. res i = None \<or> res i = Some (out i)"
    and "\<forall>i \<in> set xs. out i = None"
    and "first_failure res (xs @ k # ys) = Some e"
  shows "\<forall>i \<in> set (xs @ [k]). res i \<noteq> None"
  using assms(2,3)
proof (induction xs)
  case Nil
  then show ?case
    by (auto split: option.splits)
next
  case (Cons x xs)
  from assms(1) have "res x = None \<or> res x = Some (out x)" by blast
  with Cons show ?case
    by (auto split: option.splits)
qed

lemma first_failure_at:
  assumes "\<forall>i < k. out i = None" and "out k = Some e" and "k < n"
  shows "first_failure (\<lambda>i. Some (out i)) [0..<n] = Some e"
proof -
  have "first_failure (\<lambda>i. Some (out i)) ([0..<k] @ k # [Suc k..<n])
        = first_failure (\<lambda>i. Some (out i)) (k # [Suc k..<n])"
    using assms(1) by (intro first_failure_skip) simp
  with assms(2) show ?thesis
    by (simp add: upt_split [OF assms(3)])
qed

lemma ball_pairD: "\<forall>(i, j) \<in> A. P i j \<Longrightarrow> (i, j) \<in> A \<Longrightarrow> P i j"
  by auto

lemma run_stragglers_calls:
  assumes "\<forall>(i, j) \<in> set js. \<forall>s. set (calls (fst s)) \<subseteq> set (calls (fst (fst (j s))))"
  shows "set (calls (fst s)) \<subseteq> set (calls (fst (run_stragglers js s)))"
  using assms
proof (induction js arbitrary: s)
  case Nil
  show ?case by simp
next
  case (Cons a js)
  obtain i j where a: "a = (i, j)" by (cases a)
  have "(i, j) \<in> set (a # js)"
    by (simp add: a)
  from ball_pairD [OF Cons.prems this]
  have "set (calls (fst s)) \<subseteq> set (calls (fst (fst (j s))))"
    by (rule spec)
  then have "set (calls (fst s)) \<subseteq> set (calls (fst (fst (in_worker j s))))"
    unfolding in_worker_keeps(3) .
  moreover from Cons.prems have "\<forall>(i, j) \<in> set js. \<forall>s.
                                  set (calls (fst s)) \<subseteq> set (calls (fst (fst (j s))))"
    by simp
  then have "set (calls (fst (fst (in_worker j s))))
             \<subseteq> set (calls (fst (run_stragglers js (fst (in_worker j s)))))"
    by (rule Cons.IH)
  ultimately show ?case
    by (simp add: a)
qed

lemma serve_calls:
  assumes "\<forall>i. res i = None \<or> res i = Some (out i)"
    and "\<forall>(i, j) \<in> set order. \<forall>w. snd (j (w, l)) = out i"
    and "\<forall>(i, j) \<in> set order. \<forall>s.
           set (calls (fst (fst (j s)))) = insert (lab i) (set (calls (fst s)))"
    and "\<forall>i. res i \<noteq> None \<longrightarrow> lab i \<in> set (calls (fst s))"
    and "\<forall>i < n. res i \<noteq> None \<or> i \<in> fst ` set order"
    and "snd s = l"
    and "\<forall>i < k. out i = None" and "k < n"
  shows "\<forall>i \<le> k. lab i \<in> set (calls (fst (fst (serve n late order res s))))"
  using assms(1-6)
proof (induction order arbitrary: res s)
  case Nil
  with assms(8) show ?case
    by (auto simp: less_le_trans)
next
  case (Cons a order)
  obtain i j where a: "a = (i, j)" by (cases a)
  obtain w where s: "s = (w, l)"
    using Cons.prems(6) by (cases s) simp
  show ?case
  proof (cases "first_failure res [0..<n]")
    case (Some e)
    from assms(7) have "\<forall>i \<in> set [0..<k]. out i = None"
      by simp
    from first_failure_reaches [OF Cons.prems(1) this, of k "[Suc k..<n]" e] Some
    have "\<forall>i \<in> set ([0..<k] @ [k]). res i \<noteq> None"
      by (simp add: upt_split [OF assms(8)])
    then have "\<forall>i \<le> k. res i \<noteq> None"
      by (auto simp: le_less)
    with Cons.prems(4) have here: "\<forall>i \<le> k. lab i \<in> set (calls (fst s))"
      by blast
    have "set (calls (fst s)) \<subseteq> set (calls (fst (fst (j s))))"
      if "(i, j) \<in> set (take late (a # order))" for i j and s :: state
    proof -
      from that have "(i, j) \<in> set (a # order)"
        by (rule in_set_takeD)
      from ball_pairD [OF Cons.prems(3) this]
      have "set (calls (fst (fst (j s)))) = insert (lab i) (set (calls (fst s)))"
        by (rule spec)
      then show ?thesis by blast
    qed
    then have grow: "\<forall>(i, j) \<in> set (take late (a # order)). \<forall>s.
                       set (calls (fst s)) \<subseteq> set (calls (fst (fst (j s))))"
      by blast
    from Some have "serve n late (a # order) res s
                    = (run_stragglers (take late (a # order)) s, Some e)"
      by (simp add: a)
    with run_stragglers_calls [OF grow, of s] here show ?thesis
      by auto
  next
    case None
    obtain s' r where step: "in_worker j s = (s', r)" by (cases "in_worker j s")
    with None have eq: "serve n late (a # order) res s = serve n late order (res(i \<mapsto> r)) s'"
      by (simp add: a)
    have mem: "(i, j) \<in> set (a # order)"
      by (simp add: a)
    from ball_pairD [OF Cons.prems(2) mem] have "snd (j (w, l)) = out i"
      by (rule spec)
    with step s have r: "r = out i"
      using in_worker_keeps(4) [of j s] by simp
    from step Cons.prems(6) have l: "snd s' = l"
      using in_worker_keeps(2) [of j s] by simp
    from ball_pairD [OF Cons.prems(3) mem]
    have "set (calls (fst (fst (j s)))) = insert (lab i) (set (calls (fst s)))"
      by (rule spec)
    with step have c: "set (calls (fst s')) = insert (lab i) (set (calls (fst s)))"
      using in_worker_keeps(3) [of j s] by simp
    have 1: "\<forall>k. (res(i \<mapsto> r)) k = None \<or> (res(i \<mapsto> r)) k = Some (out k)"
      using Cons.prems(1) r by simp
    have 2: "\<forall>(i, j) \<in> set order. \<forall>w. snd (j (w, l)) = out i"
      using Cons.prems(2) by simp
    have 3: "\<forall>(i, j) \<in> set order. \<forall>s.
               set (calls (fst (fst (j s)))) = insert (lab i) (set (calls (fst s)))"
      using Cons.prems(3) by simp
    have 4: "\<forall>k. (res(i \<mapsto> r)) k \<noteq> None \<longrightarrow> lab k \<in> set (calls (fst s'))"
      using Cons.prems(4) c by simp
    have 5: "\<forall>k < n. (res(i \<mapsto> r)) k \<noteq> None \<or> k \<in> fst ` set order"
      using Cons.prems(5) a by auto
    show ?thesis
      unfolding eq using Cons.IH [OF 1 2 3 4 5 l] .
  qed
qed

lemma pool_run_calls:
  assumes "Pool n = None" and "picklable l"
    and "\<forall>i < length tasks. \<forall>w. snd (snd (tasks ! i) (w, l)) = out i"
    and "\<forall>i < length tasks. \<forall>s.
           set (calls (fst (fst (snd (tasks ! i) s)))) = insert (lab i) (set (calls (fst s)))"
    and "\<forall>i < k. out i = None" and "k < length tasks"
  shows "\<forall>i \<le> k. lab i \<in> set (calls (fst (fst (pool_run n sched tasks (w, l)))))"
proof -
  let ?jobs = "enumerate 0 (map snd tasks)"
  let ?order = "completion_order (length tasks) (picks sched)
                  (take (nat n) ?jobs) (drop (nat n) ?jobs)"
  from assms(1) have n: "0 < nat n"
    by (simp add: Pool_def split: if_splits)
  have "length tasks = length (take (nat n) ?jobs) + length (drop (nat n) ?jobs)"
    by simp
  moreover have "take (nat n) ?jobs = [] \<longrightarrow> drop (nat n) ?jobs = []"
    using n by auto
  ultimately have "set ?order = set (take (nat n) ?jobs) \<union> set (drop (nat n) ?jobs)"
    by (rule completion_order_set)
  then have order: "set ?order = set ?jobs"
    by (metis append_take_drop_id set_append)
  have 2: "\<forall>(i, j) \<in> set ?order. \<forall>w. snd (j (w, l)) = out i"
    unfolding order using assms(3) by (auto simp: in_set_enumerate_eq)
  have 3: "\<forall>(i, j) \<in> set ?order. \<forall>s.
             set (calls (fst (fst (j s)))) = insert (lab i) (set (calls (fst s)))"
    unfolding order using assms(4) by (auto simp: in_set_enumerate_eq)
  have 5: "\<forall>i < length tasks. Map.empty i \<noteq> None \<or> i \<in> fst ` set ?order"
  proof (intro allI impI)
    fix i
    assume "i < length tasks"
    then have "(i, map snd tasks ! i) \<in> set ?jobs"
      by (simp add: in_set_enumerate_eq)
    then have "i \<in> fst ` set ?jobs"
      by force
    then show "Map.empty i \<noteq> None \<or> i \<in> fst ` set ?order"
      unfolding order by blast
  qed
  have 1: "\<forall>i. Map.empty i = None \<or> Map.empty i = Some (out i)"
    by simp
  have 4: "\<forall>i. Map.empty i \<noteq> None
               \<longrightarrow> lab i \<in> set (calls (fst (w\<lparr>submitted := submitted w @ map fst tasks\<rparr>, l)))"
    by simp
  from serve_calls [OF 1 2 3 4 5 _ assms(5,6), of "stragglers sched"]
  show ?thesis
    using assms(1,2) by (simp add: pool_run_def Let_def)
qed

text \<open>A stage whose logger cannot be pickled runs no job: the first \<^verbatim>\<open>get()\<close> raises \<^verbatim>\<open>TypeError\<close>.\<close>

lemma start_download_unpicklable:
  assumes "Pool (num_workers self) = None" and "\<not> picklable (logger self)"
    and "map_items (channel_to_video_map self) \<noteq> []"
  shows "snd (start_download c sched w self) = Some TypeError
     \<and> calls (fst (fst (start_download c sched w self))) = calls w"
  using assms by (simp add: start_download_def pool_run_def download_tasks_def)

text \<open>
  A job of the separation stage always raises: called with one argument for every character
  of the path, or with a \<^verbatim>\<open>str\<close> that has no \<^verbatim>\<open>parent\<close>. So a run of that stage returns only when
  there is no candidate.
\<close>

lemma separate_audio_star_raises:
  "\<exists>e. \<forall>w l. snd (separate_audio_star c p (w, l)) = Some e"
proof (cases "length p = 1")
  case False
  then show ?thesis
    by (simp add: separate_audio_star_def)
next
  case True
  show ?thesis
  proof (cases "isfile c (PStr p)")
    case False
    with True show ?thesis
      by (simp add: separate_audio_star_def separate_audio_def)
  next
    case isf: True
    show ?thesis
    proof (cases "demucs c (PStr p)")
      case None
      with True isf show ?thesis
        by (simp add: separate_audio_star_def separate_audio_def)
    next
      case (Some e)
      with True isf show ?thesis
        by (simp add: separate_audio_star_def separate_audio_def)
    qed
  qed
qed

lemma separate_all_returns:
  assumes "Pool (num_workers self) = None"
  shows "snd (separate_all c sched w self) = None \<longleftrightarrow> audio_filepaths self = []"
proof (cases "audio_filepaths self")
  case Nil
  with assms show ?thesis
    by (simp add: separate_all_def pool_run_def separate_tasks_def split: prod.splits)
next
  case (Cons p ps)
  let ?tasks = "separate_tasks c (audio_filepaths self)"
  have raised: "snd (pool_run (num_workers self) sched ?tasks (w, logger self)) \<noteq> None"
  proof (cases "picklable (logger self)")
    case False
    with assms Cons show ?thesis
      by (simp add: pool_run_def separate_tasks_def)
  next
    case True
    define out where "out i = snd (snd (?tasks ! i) (w, logger self))" for i
    have "\<forall>i < length ?tasks. \<forall>w'. snd (snd (?tasks ! i) (w', logger self)) = out i"
    proof (intro allI impI)
      fix i w'
      assume "i < length ?tasks"
      then have "snd (?tasks ! i) = separate_audio_star c (audio_filepaths self ! i)"
        by (simp add: separate_tasks_def)
      with separate_audio_star_raises [of c "audio_filepaths self ! i"]
      show "snd (snd (?tasks ! i) (w', logger self)) = out i"
        by (auto simp: out_def)
    qed
    from pool_run_result [OF assms True this, of sched w]
    have res: "snd (pool_run (num_workers self) sched ?tasks (w, logger self))
               = first_failure (\<lambda>i. Some (out i)) [0..<length ?tasks]" .
    have "snd (?tasks ! 0) = separate_audio_star c p"
      using Cons by (simp add: separate_tasks_def)
    with separate_audio_star_raises [of c p] obtain e where at: "out 0 = Some e"
      by (auto simp: out_def)
    have "length ?tasks = Suc (length ps)"
      unfolding Cons by (simp add: separate_tasks_def)
    then have pos: "0 < length ?tasks"
      by simp
    have "\<forall>i < 0. out i = None"
      by simp
    from first_failure_at [OF this at pos]
    have "first_failure (\<lambda>i. Some (out i)) [0..<length ?tasks] = Some e" .
    with res show ?thesis
      by simp
  qed
  then have "snd (separate_all c sched w self) \<noteq> None"
    by (auto simp: separate_all_def split: prod.splits option.splits)
  with Cons show ?thesis
    by simp
qed

text \<open>
  C2, as the code has it. An exception of a job is not captured as an outcome of its item.
  When the pool is built, the stage can be pickled, the jobs of the items \<open>pre\<close> submitted
  first return and the job of the next item \<open>(g, v)\<close> raises \<open>e\<close>, then \<^verbatim>\<open>get()\<close> raises \<open>e\<close> out of
  \<open>start_download\<close>, whatever the schedule of the workers: the caller gets the exception and
  no outcomes, and the logger is not closed. The downloads of \<open>pre\<close> and of \<open>(g, v)\<close> have
  ended by then; of the items submitted after \<open>(g, v)\<close> nothing is said.
\<close>

theorem start_download_first_failure:
  assumes "Pool (num_workers self) = None"
    and "picklable (logger self)"
    and "map_items (channel_to_video_map self) = pre @ (g, v) # post"
    and "\<forall>(a, b) \<in> set pre. snd (download_audio c a b (w, logger self)) = None"
    and "snd (download_audio c g v (w, logger self)) = Some e"
  shows "snd (start_download c sched w self) = Some e
     \<and> close_calls (fst (fst (start_download c sched w self))) = close_calls w
     \<and> set (downloads (pre @ [(g, v)])) \<subseteq> set (calls (fst (fst (start_download c sched w self))))"
proof -
  define items where "items = pre @ (g, v) # post"
  define l where "l = logger self"
  define out where "out i = snd (download_audio c (fst (items ! i)) (snd (items ! i)) (w, l))"
    for i
  define lab where "lab i = Download (fst (items ! i)) (snd (items ! i))" for i
  let ?tasks = "download_tasks c items"
  let ?run = "pool_run (num_workers self) sched ?tasks (w, l)"
  have len: "length ?tasks = length items"
    by (simp add: download_tasks_def)
  have task: "?tasks ! i = (lab i, download_audio c (fst (items ! i)) (snd (items ! i)))"
    if "i < length items" for i
    using that by (simp add: download_tasks_def lab_def case_prod_beta)
  have pick: "picklable l"
    using assms(2) by (simp add: l_def)
  have 3: "\<forall>i < length ?tasks. \<forall>w'. snd (snd (?tasks ! i) (w', l)) = out i"
    using task download_audio_picklable [OF pick] by (simp add: out_def len)
  have 4: "\<forall>i < length ?tasks. \<forall>s.
             set (calls (fst (fst (snd (?tasks ! i) s)))) = insert (lab i) (set (calls (fst s)))"
  proof (intro allI impI)
    fix i and s :: state
    assume "i < length ?tasks"
    then have i: "i < length items"
      by (simp add: len)
    obtain w' l' where s: "s = (w', l')" by (cases s)
    show "set (calls (fst (fst (snd (?tasks ! i) s)))) = insert (lab i) (set (calls (fst s)))"
      using download_audio_calls [of c "fst (items ! i)" "snd (items ! i)" w' l']
      by (simp add: task [OF i] s lab_def)
  qed
  have nth_pre: "items ! i = pre ! i" if "i < length pre" for i
    using that by (simp add: items_def nth_append)
  have nth_at: "items ! length pre = (g, v)"
    by (simp add: items_def)
  have pre: "\<forall>i < length pre. out i = None"
  proof (intro allI impI)
    fix i
    assume i: "i < length pre"
    then have "pre ! i \<in> set pre"
      by simp
    with assms(4) have "snd (download_audio c (fst (pre ! i)) (snd (pre ! i)) (w, l)) = None"
      unfolding l_def by (auto simp: case_prod_beta)
    then show "out i = None"
      by (simp add: out_def nth_pre [OF i])
  qed
  have at: "out (length pre) = Some e"
    using assms(5) by (simp add: out_def nth_at l_def)
  have k: "length pre < length ?tasks"
    unfolding len by (simp add: items_def)
  from pool_run_result [OF assms(1) pick 3, of sched w] first_failure_at [OF pre at k]
  have res: "snd ?run = Some e"
    by simp
  have sd: "start_download c sched w self
            = (case ?run of
                 ((w', l'), Some e) \<Rightarrow> ((w', self\<lparr>logger := l'\<rparr>), Some e)
               | ((w', l'), None) \<Rightarrow>
                   (case logger_close w' l' of (w'', l'') \<Rightarrow> ((w'', self\<lparr>logger := l''\<rparr>), None)))"
    by (simp add: start_download_def assms(3) items_def l_def)
  from res have run: "snd (start_download c sched w self) = Some e"
    and st: "fst (fst (start_download c sched w self)) = fst (fst ?run)"
    unfolding sd by (auto split: prod.splits option.splits)
  have cl: "close_calls (fst (fst ?run)) = close_calls w"
    using pool_run_close_calls [OF download_tasks_close_calls] .
  have "set (downloads (pre @ [(g, v)])) \<subseteq> set (calls (fst (fst ?run)))"
  proof
    fix x
    assume "x \<in> set (downloads (pre @ [(g, v)]))"
    then have "x \<in> set (downloads pre) \<or> x = Download g v"
      by (auto simp: downloads_def)
    then have "\<exists>i \<le> length pre. x = lab i"
    proof
      assume "x \<in> set (downloads pre)"
      then obtain i where i: "i < length pre" and "x = downloads pre ! i"
        by (metis in_set_conv_nth length_map downloads_def)
      then have "x = lab i"
        by (simp add: downloads_def lab_def nth_pre case_prod_beta)
      with i show ?thesis
        using less_imp_le by blast
    next
      assume "x = Download g v"
      then have "x = lab (length pre)"
        by (simp add: lab_def nth_at)
      then show ?thesis
        by blast
    qed
    then show "x \<in> set (calls (fst (fst ?run)))"
      using pool_run_calls [OF assms(1) pick 3 4 pre k, of sched w] by blast
  qed
  with run st cl show ?thesis
    by simp
qed

theorem start_download_first_failure_witness:
  "Pool (num_workers (example_batch 2)) = None
   \<and> picklable (logger (example_batch 2))
   \<and> map_items (channel_to_video_map (example_batch 2))
     = [(''chA'', ''vid1''), (''chA'', ''vid2'')] @ (''chA'', ''vid3'')
       # [(''chA'', ''vid4''), (''chA'', ''vid5'')]
   \<and> snd (download_audio quiet_collaborators ''chA'' ''vid1''
          (fresh_process 1, logger (example_batch 2))) = None
   \<and> snd (download_audio quiet_collaborators ''chA'' ''vid2''
          (fresh_process 1, logger (example_batch 2))) = None
   \<and> snd (download_audio quiet_collaborators ''chA'' ''vid3''
          (fresh_process 1, logger (example_batch 2))) = Some (CollaboratorError ''vid3'')
   \<and> snd (start_download quiet_collaborators \<lparr>picks = [1, 1, 0], stragglers = 1\<rparr>
          (fresh_process 1) (example_batch 2)) = Some (CollaboratorError ''vid3'')
   \<and> close_calls (fst (fst (start_download quiet_collaborators
          \<lparr>picks = [1, 1, 0], stragglers = 1\<rparr> (fresh_process 1) (example_batch 2)))) = 0
   \<and> set [Download ''chA'' ''vid1'', Download ''chA'' ''vid2'', Download ''chA'' ''vid3'']
       \<subseteq> set (calls (fst (fst (start_download quiet_collaborators
          \<lparr>picks = [1, 1, 0], stragglers = 1\<rparr> (fresh_process 1) (example_batch 2)))))
   \<and> calls (fst (fst (start_download quiet_collaborators
          \<lparr>picks = [1, 1, 0], stragglers = 1\<rparr> (fresh_process 1) (example_batch 2))))
     = [Download ''chA'' ''vid2'', Download ''chA'' ''vid3'', Download ''chA'' ''vid1'',
        Download ''chA'' ''vid4'']"
proof -
  let ?l = "logger (example_batch 2)"
  let ?sched = "\<lparr>picks = [1, 1, 0], stragglers = 1\<rparr>"
  have p: "Pool (num_workers (example_batch 2)) = None"
    by (simp add: Pool_def example_batch_def example_downloader_def)
  have k: "picklable ?l"
    by (simp add: example_batch_def example_downloader_def)
  have m: "map_items (channel_to_video_map (example_batch 2))
           = [(''chA'', ''vid1''), (''chA'', ''vid2'')] @ (''chA'', ''vid3'')
             # [(''chA'', ''vid4''), (''chA'', ''vid5'')]"
    by (simp add: map_items_def example_batch_def example_downloader_def)
  have j1: "snd (download_audio quiet_collaborators ''chA'' ''vid1'' (fresh_process 1, ?l)) = None"
    by code_simp
  have j2: "snd (download_audio quiet_collaborators ''chA'' ''vid2'' (fresh_process 1, ?l)) = None"
    by code_simp
  have j3: "snd (download_audio quiet_collaborators ''chA'' ''vid3'' (fresh_process 1, ?l))
            = Some (CollaboratorError ''vid3'')"
    by code_simp
  have pre: "\<forall>(a, b) \<in> set [(''chA'', ''vid1''), (''chA'', ''vid2'')].
               snd (download_audio quiet_collaborators a b (fresh_process 1, ?l)) = None"
    using j1 j2 by simp
  have c: "calls (fst (fst (start_download quiet_collaborators ?sched (fresh_process 1)
             (example_batch 2))))
           = [Download ''chA'' ''vid2'', Download ''chA'' ''vid3'', Download ''chA'' ''vid1'',
              Download ''chA'' ''vid4'']"
    by code_simp
  from start_download_first_failure [OF p k m pre j3, of ?sched]
  have "snd (start_download quiet_collaborators ?sched (fresh_process 1) (example_batch 2))
          = Some (CollaboratorError ''vid3'')
        \<and> close_calls (fst (fst (start_download quiet_collaborators ?sched (fresh_process 1)
             (example_batch 2)))) = 0
        \<and> set [Download ''chA'' ''vid1'', Download ''chA'' ''vid2'', Download ''chA'' ''vid3'']
            \<subseteq> set (calls (fst (fst (start_download quiet_collaborators ?sched (fresh_process 1)
             (example_batch 2)))))"
    by (simp add: downloads_def close_calls_def fresh_process_def)
  with p k m j1 j2 j3 c show ?thesis
    by blast
qed

text \<open>
  The claim as stated fails: of five items whose third always raises, the run with one worker
  returns no outcomes but raises the error of the third; the fourth and the fifth have not
  run to their end.
\<close>

theorem batch_aborted_by_one_failure:
  "snd (start_download quiet_collaborators in_order (fresh_process 1) (example_batch 1))
     = Some (CollaboratorError ''vid3'')
   \<and> calls (fst (fst (start_download quiet_collaborators in_order (fresh_process 1)
        (example_batch 1))))
     = [Download ''chA'' ''vid1'', Download ''chA'' ''vid2'', Download ''chA'' ''vid3'']"
  by code_simp

section \<open>What a run submits\<close>

lemma log_incomplete_calls:
  "calls (fst (fst (log_incomplete (w, l) channel_id video_ids))) = calls w
   \<and> submitted (fst (fst (log_incomplete (w, l) channel_id video_ids))) = submitted w"
proof (induction video_ids arbitrary: w l)
  case Nil
  show ?case by simp
next
  case (Cons v vs)
  obtain w1 l1 r where step:
    "logger_log w l False channel_id v (Some ''YoutubeDownloader'') = ((w1, l1), r)"
    by (metis surj_pair)
  then have "calls w1 = calls w \<and> submitted w1 = submitted w"
    using logger_log_calls [of w l False channel_id v "Some ''YoutubeDownloader''"] by simp
  with step Cons.IH [of w1 l1] show ?case
    by (auto split: option.splits)
qed

lemma start_download_submitted:
  "submitted (fst (fst (start_download c sched w self)))
     = submitted w @ (if Pool (num_workers self) = None
                      then downloads (map_items (channel_to_video_map self)) else [])"
proof -
  let ?run = "pool_run (num_workers self) sched
                (download_tasks c (map_items (channel_to_video_map self))) (w, logger self)"
  have "map fst (download_tasks c items) = downloads items" for items
    by (simp add: download_tasks_def downloads_def case_prod_beta)
  then have "submitted (fst (fst ?run))
             = submitted w @ (if Pool (num_workers self) = None
                              then downloads (map_items (channel_to_video_map self)) else [])"
    using pool_run_submitted [of "num_workers self" sched
        "download_tasks c (map_items (channel_to_video_map self))" w "logger self"]
    by simp
  moreover have "submitted (fst (fst (start_download c sched w self))) = submitted (fst (fst ?run))"
    using logger_close_calls [of "fst (fst ?run)" "snd (fst ?run)"]
    by (auto simp: start_download_def split: prod.splits option.splits)
  ultimately show ?thesis
    by simp
qed

text \<open>
  C1, as the code has it. No completion read exists. When the enumeration of a channel
  returns, it has stored every video that the channel lists under that channel; when the
  pool can be built, the run after it submits one job for every stored video, in the order
  of the map, whatever the ledger held.
\<close>

theorem start_download_submits_all:
  assumes "extract_info c channel_id = Inr es"
    and "get_video_ids c w self channel_id = ((w1, self1), None)"
    and "Pool (num_workers self1) = None"
  shows "channel_to_video_map self1
           = AList.update channel_id (truthy_ids es) (channel_to_video_map self)
     \<and> submitted (fst (fst (start_download c sched w1 self1)))
         = submitted w @ downloads (map_items (channel_to_video_map self1))"
proof -
  from assms(1,2) have m: "channel_to_video_map self1
      = AList.update channel_id (truthy_ids es) (channel_to_video_map self)"
    by (auto simp: get_video_ids_def Let_def split: prod.splits option.splits)
  from assms(1,2) have "submitted w1 = submitted w"
    using log_incomplete_calls [of w "logger self" channel_id "truthy_ids es"]
    by (auto simp: get_video_ids_def Let_def split: prod.splits option.splits)
  with start_download_submitted [of c sched w1 self1] assms(3) m show ?thesis
    by simp
qed

theorem start_download_submits_all_witness:
  "extract_info example_collaborators ''chA'' = Inr [Some ''vid1'', Some ''vid2'']
   \<and> snd example_listed = None
   \<and> Pool (num_workers (snd (fst example_listed))) = None
   \<and> channel_to_video_map (snd (fst example_listed)) = [(''chA'', [''vid1'', ''vid2''])]
   \<and> submitted (fst (fst (start_download example_collaborators in_order
        (fst (fst example_listed)) (snd (fst example_listed)))))
     = [Download ''chA'' ''vid1'', Download ''chA'' ''vid2'']"
proof -
  have e: "extract_info example_collaborators ''chA'' = Inr [Some ''vid1'', Some ''vid2'']"
    by (simp add: example_collaborators_def)
  have l: "snd example_listed = None"
    by code_simp
  have p: "Pool (num_workers (snd (fst example_listed))) = None"
    by code_simp
  have g: "get_video_ids example_collaborators (fresh_process 0)
             (example_downloader 1 (Logger (Database example_ledger)) []) ''chA''
           = ((fst (fst example_listed), snd (fst example_listed)), None)"
    using l by (simp add: example_listed_def [symmetric] prod_eq_iff)
  have m: "AList.update ''chA'' (truthy_ids [Some ''vid1'', Some ''vid2''])
             (channel_to_video_map (example_downloader 1 (Logger (Database example_ledger)) []))
           = [(''chA'', [''vid1'', ''vid2''])]"
    by (simp add: truthy_ids_def example_downloader_def)
  from start_download_submits_all [OF e g p, of in_order] m
  have "channel_to_video_map (snd (fst example_listed)) = [(''chA'', [''vid1'', ''vid2''])]
        \<and> submitted (fst (fst (start_download example_collaborators in_order
             (fst (fst example_listed)) (snd (fst example_listed)))))
          = submitted (fresh_process 0) @ downloads (map_items [(''chA'', [''vid1'', ''vid2''])])"
    by simp
  then show ?thesis
    using e l p by (simp add: downloads_def map_items_def fresh_process_def)
qed

text \<open>
  The claim as stated fails: a video that the ledger holds as complete is enumerated, logged
  as incomplete again and submitted again; the run then raises the \<^verbatim>\<open>TypeError\<close> of the pickling
  and no video, complete or not, is downloaded.
\<close>

theorem complete_item_submitted_again:
  "isComplete example_ledger ''chA'' ''vid1'' ''YoutubeDownloader''
   \<and> logger_rows (logger (snd (fst example_listed))) ''YoutubeDownloader_logs''
     = [\<lparr>Status = 0, Channel_ID = ''chA'', Video_ID = ''vid1''\<rparr>,
        \<lparr>Status = 0, Channel_ID = ''chA'', Video_ID = ''vid2''\<rparr>]
   \<and> submitted (fst (fst (start_download example_collaborators in_order
        (fst (fst example_listed)) (snd (fst example_listed)))))
     = [Download ''chA'' ''vid1'', Download ''chA'' ''vid2'']
   \<and> snd (start_download example_collaborators in_order
        (fst (fst example_listed)) (snd (fst example_listed))) = Some TypeError
   \<and> calls (fst (fst (start_download example_collaborators in_order
        (fst (fst example_listed)) (snd (fst example_listed))))) = []"
  by code_simp

section \<open>The candidate list of the separation and detection stages\<close>

lemma glob_star_dirs_subset: "set (glob_star_dirs t) \<subseteq> set (listdir t)"
  by (auto simp: glob_star_dirs_def)

lemma stem_dot_wav: "is_wav ''.wav'' \<and> stem ''.wav'' = []"
  by (simp add: is_wav_def stem_def)

lemma third_level_names_mem:
  assumes "(a, ta) \<in> set (listdir t)" and "(b, tb) \<in> set (listdir ta)"
    and "(n, x) \<in> set (listdir tb)"
  shows "n \<in> set (third_level_names t)"
  using assms by (force simp: third_level_names_def)

lemma glob_wav_empty:
  assumes "\<forall>(d, u) \<in> set (glob_bases p t expansion).
             \<forall>n \<in> set (third_level_names u). is_wav n \<longrightarrow> stem n \<noteq> []"
  shows "glob_wav p t expansion = []"
proof -
  have "glob_literal tb ''.wav'' = []"
    if "(d, u) \<in> set (glob_bases p t expansion)"
      and "(a, ta) \<in> set (glob_star_dirs u)" and "(b, tb) \<in> set (glob_star_dirs ta)"
    for d u a ta b tb
  proof -
    from that(1) assms have no: "''.wav'' \<notin> set (third_level_names u)"
      using stem_dot_wav by blast
    from that(2,3) have "(a, ta) \<in> set (listdir u)" and "(b, tb) \<in> set (listdir ta)"
      using glob_star_dirs_subset by blast+
    then have "''.wav'' \<notin> fst ` set (listdir tb)"
      using no third_level_names_mem by fastforce
    then show ?thesis
      by (simp add: glob_literal_def)
  qed
  then show ?thesis
    by (auto simp: glob_wav_def)
qed

text \<open>The pattern does match an entry that is named \<^verbatim>\<open>.wav\<close> and nothing else.\<close>

lemma glob_wav_dot_wav:
  "glob_wav ''data''
     (Dir [(''chA'', Dir [(''vid1'', Dir [(''title_vid1.wav'', File), (''.wav'', File)])])]) []
   = [''data/chA/vid1/.wav'']"
  by (simp add: glob_wav_def glob_bases_def glob_base_def has_magic_def glob_star_dirs_def
      glob_literal_def os_path_join_def)

text \<open>Under the root directory the names begin with two slashes.\<close>

lemma glob_wav_root:
  "glob_wav ''/'' (Dir [(''tmp'', Dir [(''x'', Dir [(''.wav'', File)])])]) []
   = [''//tmp/x/.wav'']"
  by (simp add: glob_wav_def glob_bases_def glob_base_def has_magic_def glob_star_dirs_def
      glob_literal_def os_path_join_def)

text \<open>
  The constructor of the detection stage never comes to the pattern: \<^verbatim>\<open>update_vad_config\<close> reads
  \<^verbatim>\<open>self.out_path\<close> before \<^verbatim>\<open>__init__\<close> has assigned it.
\<close>

lemma VAD_init_raises:
  "VAD_init (Inr st) cfg_in cfg_out cfg_n cfg_b t expansion tmp made lg = Inl AttributeError"
  by (simp add: VAD_init_def update_vad_config_def split: option.splits)

text \<open>
  C9, as the code has it. When in every directory that the \<^verbatim>\<open>in_path\<close> part of the pattern
  denotes no entry at the level of the audio files, file or directory, is named \<^verbatim>\<open>.wav\<close> (every
  name there that ends in \<^verbatim>\<open>.wav\<close> has a stem that is not empty), the pattern
  \<^verbatim>\<open>{in_path}/*/*/.wav\<close> matches nothing: the separation stage is built with an empty candidate
  list and its run submits no job and calls the separation model for no file.
\<close>

theorem glob_wav_matches_nothing:
  assumes "\<forall>(d, u) \<in> set (glob_bases (str_path (Path cfg_in)) t expansion).
             \<forall>n \<in> set (third_level_names u). is_wav n \<longrightarrow> stem n \<noteq> []"
    and "MusicSeparator_init cfg_in cfg_out cfg_n (Some t) mk expansion lg = Inr self"
  shows "audio_filepaths self = []
    \<and> submitted (fst (fst (separate_all c sched w self))) = submitted w
    \<and> filter (\<lambda>x. x \<noteq> Close) (calls (fst (fst (separate_all c sched w self))))
      = filter (\<lambda>x. x \<noteq> Close) (calls w)"
proof -
  have "glob_wav (str_path (Path cfg_in)) t expansion = []"
    using assms(1) by (rule glob_wav_empty)
  with assms(2) have a: "audio_filepaths self = []"
    by (auto simp: MusicSeparator_init_def split: option.splits)
  then have "submitted (fst (fst (separate_all c sched w self))) = submitted w
    \<and> filter (\<lambda>x. x \<noteq> Close) (calls (fst (fst (separate_all c sched w self))))
      = filter (\<lambda>x. x \<noteq> Close) (calls w)"
    using logger_close_calls [of w "logger self"]
    by (auto simp: separate_all_def pool_run_def separate_tasks_def split: option.splits prod.splits)
  with a show ?thesis
    by simp
qed

theorem glob_wav_matches_nothing_witness:
  "glob_bases (str_path (Path ''root'')) example_tree [] = [(''root'', example_tree)]
   \<and> third_level_names example_tree = [''title_vid1.wav'']
   \<and> is_wav ''title_vid1.wav'' \<and> stem ''title_vid1.wav'' = ''title_vid1''
   \<and> MusicSeparator_init ''root'' None (Some 1) (Some example_tree) None [] (Logger Console)
     = Inr (example_separator 1 (Logger Console) [])
   \<and> audio_filepaths (example_separator 1 (Logger Console) []) = []
   \<and> submitted (fst (fst (separate_all example_collaborators in_order (fresh_process 1)
        (example_separator 1 (Logger Console) [])))) = submitted (fresh_process 1)
   \<and> filter (\<lambda>x. x \<noteq> Close)
        (calls (fst (fst (separate_all example_collaborators in_order (fresh_process 1)
           (example_separator 1 (Logger Console) [])))))
     = filter (\<lambda>x. x \<noteq> Close) (calls (fresh_process 1))"
proof -
  have bases: "glob_bases (str_path (Path ''root'')) example_tree [] = [(''root'', example_tree)]"
    by code_simp
  have names: "third_level_names example_tree = [''title_vid1.wav'']"
    by (simp add: third_level_names_def example_tree_def)
  have wav: "is_wav ''title_vid1.wav'' \<and> stem ''title_vid1.wav'' = ''title_vid1''"
    by (simp add: is_wav_def stem_def)
  have hyp: "\<forall>(d, u) \<in> set (glob_bases (str_path (Path ''root'')) example_tree []).
               \<forall>n \<in> set (third_level_names u). is_wav n \<longrightarrow> stem n \<noteq> []"
    unfolding bases using names wav by simp
  have "glob_wav (str_path (Path ''root'')) example_tree [] = []"
    by code_simp
  then have init: "MusicSeparator_init ''root'' None (Some 1) (Some example_tree) None []
                     (Logger Console) = Inr (example_separator 1 (Logger Console) [])"
    by (simp add: MusicSeparator_init_def example_separator_def)
  from glob_wav_matches_nothing [OF hyp init, of example_collaborators in_order "fresh_process 1"]
    bases names wav init
  show ?thesis
    by blast
qed

text \<open>
  The claim as stated fails. Every audio file of the tree has a stem that is not empty, but
  a directory named \<^verbatim>\<open>.wav\<close> beside it is listed as a candidate and the separation stage
  submits a job for it. The detection stage builds no candidate list: its constructor raises.
\<close>

theorem directory_named_wav_is_listed:
  "third_level_files example_tree_with_directory = [''title_vid1.wav'']
   \<and> is_wav ''title_vid1.wav'' \<and> stem ''title_vid1.wav'' = ''title_vid1''
   \<and> glob_wav ''root'' example_tree_with_directory [] = [''root/chA/vid1/.wav'']
   \<and> MusicSeparator_init ''root'' None (Some 1) (Some example_tree_with_directory) None []
        (Logger Console)
     = Inr (example_separator 1 (Logger Console) [''root/chA/vid1/.wav''])
   \<and> submitted (fst (fst (separate_all example_collaborators in_order (fresh_process 1)
        (example_separator 1 (Logger Console) [''root/chA/vid1/.wav'']))))
     = [Separate (PStr ''root/chA/vid1/.wav'')]
   \<and> VAD_init (Inr \<lparr>parameters = Some [], settings_num_workers = None\<rparr>) ''root'' None
        (Some 1) None example_tree_with_directory [] ''manifest.json''
        \<lparr>out_dir = None, manifest_filepath = None\<rparr> (Logger Console)
     = Inl AttributeError"
proof -
  have files: "third_level_files example_tree_with_directory = [''title_vid1.wav'']"
    by code_simp
  have wav: "is_wav ''title_vid1.wav'' \<and> stem ''title_vid1.wav'' = ''title_vid1''"
    by (simp add: is_wav_def stem_def)
  have listed: "glob_wav ''root'' example_tree_with_directory [] = [''root/chA/vid1/.wav'']"
    by code_simp
  have "glob_wav (str_path (Path ''root'')) example_tree_with_directory []
        = [''root/chA/vid1/.wav'']"
    by code_simp
  then have init: "MusicSeparator_init ''root'' None (Some 1) (Some example_tree_with_directory)
                     None [] (Logger Console)
                   = Inr (example_separator 1 (Logger Console) [''root/chA/vid1/.wav''])"
    by (simp add: MusicSeparator_init_def example_separator_def)
  have run: "submitted (fst (fst (separate_all example_collaborators in_order (fresh_process 1)
               (example_separator 1 (Logger Console) [''root/chA/vid1/.wav'']))))
             = [Separate (PStr ''root/chA/vid1/.wav'')]"
    by code_simp
  have vad: "VAD_init (Inr \<lparr>parameters = Some [], settings_num_workers = None\<rparr>) ''root'' None
               (Some 1) None example_tree_with_directory [] ''manifest.json''
               \<lparr>out_dir = None, manifest_filepath = None\<rparr> (Logger Console)
             = Inl AttributeError"
    by (rule VAD_init_raises)
  from files wav listed init run vad show ?thesis
    by blast
qed

section \<open>A sink that raises\<close>

lemma log_each_first_failure:
  assumes "log_each w pre status channel_id video_id = ((w1, pre'), None)"
    and "sink_log w1 f status channel_id video_id None = ((w2, f'), Some e)"
  shows "log_each w (pre @ f # post) status channel_id video_id
         = ((w2, pre' @ f' # post), Some e)"
  using assms
proof (induction pre arbitrary: w pre')
  case Nil
  then show ?case by simp
next
  case (Cons l ls)
  obtain wa la r where step: "sink_log w l status channel_id video_id None = ((wa, la), r)"
    by (metis surj_pair)
  show ?case
  proof (cases r)
    case (Some err)
    with step Cons.prems(1) show ?thesis by simp
  next
    case None
    obtain wb lsb rb where rest: "log_each wa ls status channel_id video_id = ((wb, lsb), rb)"
      by (metis surj_pair)
    with step None Cons.prems(1) have eq: "wb = w1" "pre' = la # lsb" "rb = None"
      by simp_all
    from rest eq have "log_each wa ls status channel_id video_id = ((w1, lsb), None)"
      by simp
    from Cons.IH [OF this Cons.prems(2)] step None eq show ?thesis
      by simp
  qed
qed

text \<open>
  C5, as the code has it. When the sinks \<open>pre\<close> configured first take the event and the next
  sink \<open>f\<close> raises \<open>e\<close>, \<^verbatim>\<open>Loggers.log\<close> raises \<open>e\<close> to its caller; the sinks \<open>post\<close> configured after
  \<open>f\<close> are not called: they are unchanged and the process state is the one that \<open>f\<close> left.
\<close>

theorem Loggers_log_stops_at_failure:
  assumes "log_each w pre status channel_id video_id = ((w1, pre'), None)"
    and "sink_log w1 f status channel_id video_id None = ((w2, f'), Some e)"
  shows "logger_log w (Loggers (pre @ f # post)) status channel_id video_id None
         = ((w2, Loggers (pre' @ f' # post)), Some e)"
  using log_each_first_failure [OF assms] by (simp add: Loggers_log_def)

theorem Loggers_log_stops_at_failure_witness:
  "log_each (fresh_process 1) [Console] False ''chA'' ''vid1''
     = ((fresh_process 1\<lparr>console := [''Status: False, Channel ID: chA, Video ID: vid1'']\<rparr>,
         [Console]), None)
   \<and> sink_log (fresh_process 1\<lparr>console := [''Status: False, Channel ID: chA, Video ID: vid1'']\<rparr>)
       (Database (DatabaseLogger_init ''a.db'' Map.empty)) False ''chA'' ''vid1'' None
     = ((fresh_process 1\<lparr>console := [''Status: False, Channel ID: chA, Video ID: vid1'']\<rparr>,
         Database (DatabaseLogger_init ''a.db'' Map.empty)), Some TypeError)
   \<and> logger_log (fresh_process 1)
       (Loggers ([Console] @ Database (DatabaseLogger_init ''a.db'' Map.empty)
                  # [Database (DatabaseLogger_init ''b.db'' Map.empty)]))
       False ''chA'' ''vid1'' None
     = ((fresh_process 1\<lparr>console := [''Status: False, Channel ID: chA, Video ID: vid1'']\<rparr>,
         Loggers ([Console] @ Database (DatabaseLogger_init ''a.db'' Map.empty)
                  # [Database (DatabaseLogger_init ''b.db'' Map.empty)])),
        Some TypeError)"
proof -
  have a: "log_each (fresh_process 1) [Console] False ''chA'' ''vid1''
     = ((fresh_process 1\<lparr>console := [''Status: False, Channel ID: chA, Video ID: vid1'']\<rparr>,
         [Console]), None)"
    by (simp add: ConsoleLogger_log_def console_line_def str_bool_def fresh_process_def)
  have b: "sink_log (fresh_process 1\<lparr>console := [''Status: False, Channel ID: chA, Video ID: vid1'']\<rparr>)
       (Database (DatabaseLogger_init ''a.db'' Map.empty)) False ''chA'' ''vid1'' None
     = ((fresh_process 1\<lparr>console := [''Status: False, Channel ID: chA, Video ID: vid1'']\<rparr>,
         Database (DatabaseLogger_init ''a.db'' Map.empty)), Some TypeError)"
    by (simp add: DatabaseLogger_log_def)
  from a b Loggers_log_stops_at_failure [OF a b] show ?thesis
    by simp
qed

text \<open>
  The claim as stated fails: with a durable sink configured before a console sink, the durable
  sink raises and the console sink never gets the event.
\<close>

theorem Loggers_log_later_sink_not_reached:
  "console (fst (fst (logger_log (fresh_process 1)
       (Loggers [Database (DatabaseLogger_init ''a.db'' Map.empty), Console])
       False ''chA'' ''vid1'' None))) = []
   \<and> snd (logger_log (fresh_process 1)
       (Loggers [Database (DatabaseLogger_init ''a.db'' Map.empty), Console])
       False ''chA'' ''vid1'' None) = Some TypeError"
  by (simp add: Loggers_log_def DatabaseLogger_log_def fresh_process_def)

section \<open>One row for every video of a stage\<close>

lemma filter_other_key:
  "v \<noteq> u \<Longrightarrow>
   filter (\<lambda>x. Video_ID x \<noteq> u \<and> Video_ID x = v) rows = filter (\<lambda>r. Video_ID r = v) rows"
  by (rule filter_cong) auto

lemma log_step:
  assumes "db_ok w d" and "table_name ctx = Some t"
  shows "\<exists>w' d'. DatabaseLogger_log w d status channel_id video_id (Some ctx) = ((w', d'), None)
           \<and> db_ok w' d'
           \<and> rows_for d' ctx video_id
               = [\<lparr>Status = (if status then 1 else 0), Channel_ID = channel_id,
                   Video_ID = video_id\<rparr>]
           \<and> (\<forall>c v. (table_name c, v) \<noteq> (Some t, video_id)
                  \<longrightarrow> rows_for d' c v = rows_for d c v)"
proof (cases "ctx \<in> set (TABLE_EXISTS w)")
  case True
  with assms obtain rows where rows: "tables d t = Some rows"
    by (fastforce simp: db_ok_def list_all_iff)
  with True assms show ?thesis
    by (auto simp: DatabaseLogger_log_def insert_or_replace_def db_ok_def list_all_iff
        rows_for_def filter_other_key split: option.splits)
next
  case False
  with assms show ?thesis
    by (auto simp: DatabaseLogger_log_def create_table_def insert_or_replace_def db_ok_def
        list_all_iff rows_for_def filter_other_key split: option.splits)
qed

lemma log_all_ok:
  assumes "db_ok w d" and "\<forall>e \<in> set es. fst (key_of e) \<noteq> None"
  shows "\<exists>w' d'. log_all w d es = ((w', d'), None) \<and> db_ok w' d'
           \<and> (\<forall>c v. (\<forall>e \<in> set es. key_of e \<noteq> (table_name c, v))
                  \<longrightarrow> rows_for d' c v = rows_for d c v)"
  using assms
proof (induction es arbitrary: w d)
  case Nil
  then show ?case by simp
next
  case (Cons e es)
  obtain status channel_id video_id ctx where e: "e = (status, channel_id, video_id, ctx)"
    by (cases e)
  with Cons.prems(2) obtain t where t: "table_name ctx = Some t"
    by auto
  from log_step [OF Cons.prems(1) t, of status channel_id video_id]
  obtain w1 d1
    where one: "DatabaseLogger_log w d status channel_id video_id (Some ctx) = ((w1, d1), None)"
      and ok1: "db_ok w1 d1"
      and others: "\<forall>c v. (table_name c, v) \<noteq> (Some t, video_id)
                     \<longrightarrow> rows_for d1 c v = rows_for d c v"
    by blast
  from Cons.prems(2) have "\<forall>e \<in> set es. fst (key_of e) \<noteq> None"
    by simp
  from Cons.IH [OF ok1 this] obtain w2 d2
    where rest: "log_all w1 d1 es = ((w2, d2), None)"
      and ok2: "db_ok w2 d2"
      and others2: "\<forall>c v. (\<forall>e \<in> set es. key_of e \<noteq> (table_name c, v))
                      \<longrightarrow> rows_for d2 c v = rows_for d1 c v"
    by blast
  have "log_all w d (e # es) = ((w2, d2), None)"
    using e one rest by simp
  moreover have "rows_for d2 c v = rows_for d c v"
    if "\<forall>x \<in> set (e # es). key_of x \<noteq> (table_name c, v)" for c v
    using that others others2 e t by auto
  ultimately show ?case
    using ok2 by blast
qed

lemma log_all_append:
  "log_all w d (xs @ ys) =
     (case log_all w d xs of
        (s, Some e) \<Rightarrow> (s, Some e)
      | ((w', d'), None) \<Rightarrow> log_all w' d' ys)"
  by (induction w d xs rule: log_all.induct) (auto split: prod.splits option.splits)

text \<open>
  Without a table for a listed stage the call raises: \<^verbatim>\<open>TABLE_EXISTS\<close> belongs to the class, so
  a second \<^verbatim>\<open>DatabaseLogger\<close> on a new file skips \<^verbatim>\<open>create_table\<close> for a stage that the first one
  has logged.
\<close>

lemma second_instance_no_table:
  "snd (DatabaseLogger_log
          (fst (fst (DatabaseLogger_log (fresh_process 0) (DatabaseLogger_init ''a.db'' Map.empty)
                       False ''chA'' ''vid1'' (Some ''YoutubeDownloader''))))
          (DatabaseLogger_init ''b.db'' Map.empty) False ''chA'' ''vid1''
          (Some ''YoutubeDownloader''))
   = Some OperationalError"
  by code_simp

text \<open>
  A stage name that does not make \<^verbatim>\<open>{ctx}_logs\<close> a name of a table raises, and two stage names
  that differ in the case of their letters write to one table.
\<close>

lemma stage_name_no_identifier:
  "DatabaseLogger_log (fresh_process 0) (DatabaseLogger_init ''a.db'' Map.empty)
     True ''chA'' ''vid1'' (Some ''My Stage'')
   = ((fresh_process 0, DatabaseLogger_init ''a.db'' Map.empty), Some OperationalError)"
  by (simp add: DatabaseLogger_log_def create_table_def table_name_def sql_identifier_def
      id_char_def fresh_process_def DatabaseLogger_init_def)

lemma stage_names_share_table:
  "rows_for (snd (fst (log_all (fresh_process 0) (DatabaseLogger_init ''a.db'' Map.empty)
        [(True, ''chA'', ''vid1'', ''Foo''), (False, ''chA'', ''vid1'', ''foo'')])))
     ''Foo'' ''vid1''
   = [\<lparr>Status = 0, Channel_ID = ''chA'', Video_ID = ''vid1''\<rparr>]"
  by code_simp

text \<open>
  C8, as the code has it. The key of a row is the table that the stage name denotes and the
  video: \<^verbatim>\<open>Video_ID\<close> is the primary key, the channel is no part of it, and the table is
  \<^verbatim>\<open>{ctx}_logs\<close> as SQLite reads that name. On an open connection whose listed tables exist, a
  sequence of \<^verbatim>\<open>log\<close> calls whose stage names all denote a table returns, and afterwards the
  table of a stage holds exactly one row for a video, the one written by the last call for
  that table and video (its status and its channel), whatever was logged before for them and
  whatever was logged for other tables and videos.
\<close>

theorem log_all_last_row:
  assumes "db_ok w d"
    and "\<forall>e \<in> set (before @ (status, channel_id, video_id, ctx) # after). fst (key_of e) \<noteq> None"
    and "\<forall>e \<in> set after. key_of e \<noteq> (table_name ctx, video_id)"
  shows "snd (log_all w d (before @ (status, channel_id, video_id, ctx) # after)) = None
     \<and> rows_for (snd (fst (log_all w d (before @ (status, channel_id, video_id, ctx) # after))))
         ctx video_id
       = [\<lparr>Status = (if status then 1 else 0), Channel_ID = channel_id, Video_ID = video_id\<rparr>]"
proof -
  from assms(2) have vb: "\<forall>e \<in> set before. fst (key_of e) \<noteq> None"
    and va: "\<forall>e \<in> set after. fst (key_of e) \<noteq> None"
    by simp_all
  from assms(2) obtain t where t: "table_name ctx = Some t"
    by auto
  from log_all_ok [OF assms(1) vb] obtain w1 d1
    where a: "log_all w d before = ((w1, d1), None)" and ok1: "db_ok w1 d1"
    by blast
  from log_step [OF ok1 t, of status channel_id video_id] obtain w2 d2
    where b: "DatabaseLogger_log w1 d1 status channel_id video_id (Some ctx) = ((w2, d2), None)"
      and ok2: "db_ok w2 d2"
      and row: "rows_for d2 ctx video_id
                  = [\<lparr>Status = (if status then 1 else 0), Channel_ID = channel_id,
                      Video_ID = video_id\<rparr>]"
    by blast
  from log_all_ok [OF ok2 va] assms(3) obtain w3 d3
    where c: "log_all w2 d2 after = ((w3, d3), None)"
      and keep: "rows_for d3 ctx video_id = rows_for d2 ctx video_id"
    by blast
  have "log_all w d (before @ (status, channel_id, video_id, ctx) # after) = ((w3, d3), None)"
    using a b c by (simp add: log_all_append)
  with keep row show ?thesis
    by simp
qed

theorem log_all_last_row_witness:
  "db_ok (fresh_process 0) (DatabaseLogger_init ''a.db'' Map.empty)
   \<and> table_name ''YoutubeDownloader'' = Some ''youtubedownloader_logs''
   \<and> table_name ''youtubeDownloader'' = Some ''youtubedownloader_logs''
   \<and> table_name ''MusicSeparator'' = Some ''musicseparator_logs''
   \<and> snd (log_all (fresh_process 0) (DatabaseLogger_init ''a.db'' Map.empty)
        ([(False, ''chA'', ''vid1'', ''YoutubeDownloader''),
          (False, ''chB'', ''vid1'', ''youtubeDownloader'')]
         @ (True, ''chA'', ''vid1'', ''YoutubeDownloader'')
         # [(False, ''chA'', ''vid2'', ''YoutubeDownloader''),
            (False, ''chA'', ''vid1'', ''MusicSeparator'')])) = None
   \<and> rows_for (snd (fst (log_all (fresh_process 0) (DatabaseLogger_init ''a.db'' Map.empty)
        ([(False, ''chA'', ''vid1'', ''YoutubeDownloader''),
          (False, ''chB'', ''vid1'', ''youtubeDownloader'')]
         @ (True, ''chA'', ''vid1'', ''YoutubeDownloader'')
         # [(False, ''chA'', ''vid2'', ''YoutubeDownloader''),
            (False, ''chA'', ''vid1'', ''MusicSeparator'')]))))
        ''YoutubeDownloader'' ''vid1''
     = [\<lparr>Status = 1, Channel_ID = ''chA'', Video_ID = ''vid1''\<rparr>]"
proof -
  have ok: "db_ok (fresh_process 0) (DatabaseLogger_init ''a.db'' Map.empty)"
    by (simp add: db_ok_def fresh_process_def DatabaseLogger_init_def)
  have names: "table_name ''YoutubeDownloader'' = Some ''youtubedownloader_logs''"
    "table_name ''youtubeDownloader'' = Some ''youtubedownloader_logs''"
    "table_name ''MusicSeparator'' = Some ''musicseparator_logs''"
    by code_simp+
  have valid: "\<forall>e \<in> set ([(False, ''chA'', ''vid1'', ''YoutubeDownloader''),
          (False, ''chB'', ''vid1'', ''youtubeDownloader'')]
         @ (True, ''chA'', ''vid1'', ''YoutubeDownloader'')
         # [(False, ''chA'', ''vid2'', ''YoutubeDownloader''),
            (False, ''chA'', ''vid1'', ''MusicSeparator'')]). fst (key_of e) \<noteq> None"
    using names by simp
  have other: "\<forall>e \<in> set [(False, ''chA'', ''vid2'', ''YoutubeDownloader''),
            (False, ''chA'', ''vid1'', ''MusicSeparator'')].
                 key_of e \<noteq> (table_name ''YoutubeDownloader'', ''vid1'')"
    using names by simp
  from log_all_last_row [OF ok valid other]
  show ?thesis
    using ok names by simp
qed

text \<open>
  The claim as stated fails: the same video logged for the same stage under two channels is
  two composite keys and leaves one row, the second.
\<close>

theorem log_all_same_video_two_channels:
  "sink_rows (Database (snd (fst (log_all (fresh_process 0)
        (DatabaseLogger_init ''a.db'' Map.empty)
        [(False, ''chA'', ''vid1'', ''YoutubeDownloader''),
         (True, ''chB'', ''vid1'', ''YoutubeDownloader'')]))))
     ''YoutubeDownloader_logs''
   = [\<lparr>Status = 1, Channel_ID = ''chB'', Video_ID = ''vid1''\<rparr>]"
  by code_simp

end
